theory Spec2Isabelle
  imports Complex_Main "HOL-Library.AList"
begin

section \<open>Numbers, vectors and the path\<close>

text \<open>
  The game is a single React component file. JavaScript numbers are modelled as
  \<^typ>\<open>real\<close>: arithmetic is exact, the rounding of IEEE doubles is not part of the
  model. A three-element array \<open>[x, y, z]\<close> is a triple. State setters
  (\<open>setEnemies\<close>, \<open>setMoney\<close>, ...) take effect at once, and the value a callback
  reads from its closure (\<open>money\<close>, \<open>wave\<close>, \<open>projectiles\<close>, \<open>towers\<close>) is the
  value of the state at the moment the callback is called.
\<close>

type_synonym vec3 = "real \<times> real \<times> real"

datatype error = TypeError

datatype alert = UnknownTower | NoMoneyPlace | NoMoneyUpgrade | NoSave | Saved

definition PATH :: "vec3 list" where
  "PATH = [(-8, 0, 8), (-4, 0, 4), (0, 0, 0), (4, 0, -4), (8, 0, -8)]"

definition lerp :: "real \<Rightarrow> real \<Rightarrow> real \<Rightarrow> real" where
  "lerp a b t = a + (b - a) * t"

fun lerpVec :: "vec3 \<Rightarrow> vec3 \<Rightarrow> real \<Rightarrow> vec3" where
  "lerpVec (a0, a1, a2) (b0, b1, b2) t = (lerp a0 b0 t, lerp a1 b1 t, lerp a2 b2 t)"

text \<open>The source's \<open>dist\<close>; the name is taken by the metric of HOL.\<close>

fun dist_vec :: "vec3 \<Rightarrow> vec3 \<Rightarrow> real" where
  "dist_vec (a0, a1, a2) (b0, b1, b2) =
     (let dx = a0 - b0; dy = a1 - b1; dz = a2 - b2
      in sqrt (dx * dx + dy * dy + dz * dz))"

text \<open>\<open>Math.round\<close>: the nearest integer, a half rounded up.\<close>

definition Math_round :: "real \<Rightarrow> real" where
  "Math_round x = of_int \<lfloor>x + 1 / 2\<rfloor>"

text \<open>\<open>x || d\<close> on a number: the default replaces a zero.\<close>

definition js_or :: "real \<Rightarrow> real \<Rightarrow> real" where
  "js_or x d = (if x = 0 then d else x)"

section \<open>The tower table\<close>

record towerType =
  c_key :: string
  c_cost :: real
  c_range :: real
  c_dmg :: real
  c_fireRate :: real
  c_splash :: "real option"

definition TOWER_basic :: towerType where
  "TOWER_basic = \<lparr>c_key = ''basic'', c_cost = 30, c_range = 3.5, c_dmg = 1,
     c_fireRate = 0.8, c_splash = None\<rparr>"

definition TOWER_fast :: towerType where
  "TOWER_fast = \<lparr>c_key = ''fast'', c_cost = 45, c_range = 3.0, c_dmg = 1,
     c_fireRate = 0.45, c_splash = None\<rparr>"

definition TOWER_sniper :: towerType where
  "TOWER_sniper = \<lparr>c_key = ''sniper'', c_cost = 85, c_range = 9.0, c_dmg = 5,
     c_fireRate = 1.5, c_splash = None\<rparr>"

definition TOWER_cannon :: towerType where
  "TOWER_cannon = \<lparr>c_key = ''cannon'', c_cost = 100, c_range = 5.5, c_dmg = 2,
     c_fireRate = 1.2, c_splash = Some 2.2\<rparr>"

definition TOWER_TYPES :: "string \<Rightarrow> towerType option" where
  "TOWER_TYPES k =
     (if k = ''basic'' then Some TOWER_basic
      else if k = ''fast'' then Some TOWER_fast
      else if k = ''sniper'' then Some TOWER_sniper
      else if k = ''cannon'' then Some TOWER_cannon
      else None)"

section \<open>The state of the game\<close>

text \<open>
  \<open>enemies\<close>, \<open>projectiles\<close> and \<open>towers\<close> are the lists of the component \<open>App\<close>.
  Each element is rendered as one mesh component keyed by its id, and the mesh keeps
  one mutable reference of its own: \<open>progress\<close> (enemy), \<open>lastShot\<close> (tower) and
  the mesh position (projectile). The reference is kept as a field of the element
  it belongs to. \<open>enemyPositions\<close> is the shared \<open>Map\<close> \<open>enemyPositionsRef.current\<close>,
  an association list in insertion order.
\<close>

record enemy =
  e_id :: string
  e_type :: string
  e_hp :: real
  e_progress :: real

record info =
  i_pos :: vec3
  i_hp :: real

record projectile =
  p_id :: string
  p_from :: vec3
  p_targetId :: string
  p_dmg :: real
  p_splash :: real
  p_position :: vec3

record tower =
  t_id :: string
  t_pos :: vec3
  t_type :: string
  t_level :: nat
  t_dmgBonus :: real
  t_rangeBonus :: real
  t_lastShot :: real

record hitInfo =
  h_targetId :: string
  h_splash :: real
  h_hitPos :: vec3

record game =
  enemies :: "enemy list"
  enemyPositions :: "(string \<times> info) list"
  projectiles :: "projectile list"
  towers :: "tower list"
  money :: real
  lives :: real
  wave :: real
  placingType :: string

definition initGame :: game where
  "initGame = \<lparr>enemies = [], enemyPositions = [], projectiles = [], towers = [],
     money = 100, lives = 10, wave = 0, placingType = ''basic''\<rparr>"

section \<open>Spawning and waves\<close>

text \<open>The random id \<open>Math.random().toString(36).slice(2,9)\<close> is a parameter.\<close>

definition spawnEnemy :: "string \<Rightarrow> string \<Rightarrow> real \<Rightarrow> game \<Rightarrow> game" where
  "spawnEnemy newId ty hp s =
     s\<lparr>enemies := enemies s @ [\<lparr>e_id = newId, e_type = ty, e_hp = hp, e_progress = 0\<rparr>]\<rparr>"

text \<open>
  \<open>nextWave\<close> returns the new state and the timers it sets: the delay in
  milliseconds and the wave number the callback has captured.
\<close>

definition nextWave :: "game \<Rightarrow> game \<times> (real \<times> real) list" where
  "nextWave s =
     (let currentWave = wave s + 1;
          count = 5 + \<lfloor>currentWave * 1.5\<rfloor>
      in (s\<lparr>wave := wave s + 1\<rparr>,
          map (\<lambda>i. (real i * 700, currentWave)) [0..<nat count]))"

text \<open>
  The callback of one timer. \<open>r1\<close> and \<open>r2\<close> are the two calls of \<open>Math.random()\<close>
  (values in \<open>[0, 1)\<close>); the second is only made, and only read here, when the
  first test fails.
\<close>

definition chooseType :: "real \<Rightarrow> real \<Rightarrow> real \<Rightarrow> string" where
  "chooseType currentWave r1 r2 =
     (if r1 < min 0.25 (currentWave * 0.02) then ''fast''
      else if r2 < 0.12 then ''cannon'' else ''basic'')"

definition spawnEvent :: "real \<Rightarrow> real \<Rightarrow> real \<Rightarrow> string \<Rightarrow> game \<Rightarrow> game" where
  "spawnEvent currentWave r1 r2 newId s =
     (let t = chooseType currentWave r1 r2;
          hp = (if t = ''cannon'' then 6 + currentWave
                else 3 + of_int \<lfloor>currentWave / 2\<rfloor>)
      in spawnEnemy newId t hp s)"

section \<open>Enemies\<close>

definition handleEnemyReachEnd :: "string \<Rightarrow> game \<Rightarrow> game" where
  "handleEnemyReachEnd ident s =
     s\<lparr>enemies := filter (\<lambda>e. e_id e \<noteq> ident) (enemies s),
       enemyPositions := AList.delete ident (enemyPositions s),
       lives := lives s - 1\<rparr>"

definition baseSpeed :: "string \<Rightarrow> real" where
  "baseSpeed ty = (if ty = ''fast'' then 1.2 else if ty = ''cannon'' then 0.45 else 0.7)"

definition setProgress :: "string \<Rightarrow> real \<Rightarrow> enemy list \<Rightarrow> enemy list" where
  "setProgress ident p es = map (\<lambda>x. if e_id x = ident then x\<lparr>e_progress := p\<rparr> else x) es"

text \<open>
  The frame callback of \<open>EnemyMesh\<close>. A negative index reads \<open>undefined\<close> from
  \<open>PATH\<close> and \<open>lerpVec\<close> then throws.
\<close>

definition enemyFrame :: "real \<Rightarrow> enemy \<Rightarrow> game \<Rightarrow> error + game" where
  "enemyFrame dt e s =
     (let progress = e_progress e + baseSpeed (e_type e) * dt;
          idx = \<lfloor>progress\<rfloor>;
          t = progress - of_int idx
      in if idx \<ge> int (length PATH) - 1
         then Inr (handleEnemyReachEnd (e_id e)
                (s\<lparr>enemyPositions := AList.delete (e_id e) (enemyPositions s)\<rparr>))
         else if idx < 0 then Inl TypeError
         else (let pos = lerpVec (PATH ! nat idx) (PATH ! nat (idx + 1)) t
               in Inr (s\<lparr>enemies := setProgress (e_id e) progress (enemies s),
                        enemyPositions := AList.update (e_id e)
                          \<lparr>i_pos = pos, i_hp = e_hp e\<rparr> (enemyPositions s)\<rparr>)))"

section \<open>Towers\<close>

definition spawnProjectile ::
  "string \<Rightarrow> string \<Rightarrow> vec3 \<Rightarrow> string \<Rightarrow> real \<Rightarrow> real \<Rightarrow> game \<Rightarrow> game" where
  "spawnProjectile newId fromTowerId fromPos targetId dmg splash s =
     s\<lparr>projectiles := projectiles s @
        [\<lparr>p_id = newId, p_from = fromPos, p_targetId = targetId, p_dmg = dmg,
          p_splash = splash, p_position = fromPos\<rparr>]\<rparr>"

definition towerConfig :: "tower \<Rightarrow> towerType" where
  "towerConfig tw = (case TOWER_TYPES (t_type tw) of Some c \<Rightarrow> c | None \<Rightarrow> TOWER_basic)"

definition fireInterval :: "tower \<Rightarrow> real" where
  "fireInterval tw = max 0.12 (c_fireRate (towerConfig tw))"

text \<open>
  The scan of the tower: the accumulator is \<open>None\<close> while \<open>closest\<close> is \<open>null\<close>
  and \<open>minD\<close> is \<open>Infinity\<close>, and holds \<open>minD\<close> and \<open>closest\<close> afterwards.
\<close>

definition scanStep ::
  "tower \<Rightarrow> string \<times> info \<Rightarrow> (real \<times> string \<times> vec3 \<times> real) option
     \<Rightarrow> (real \<times> string \<times> vec3 \<times> real) option" where
  "scanStep tw entry acc =
     (let p = i_pos (snd entry);
          d = dist_vec p (t_pos tw)
      in if d \<le> c_range (towerConfig tw) + js_or (t_rangeBonus tw) 0
            \<and> (case acc of None \<Rightarrow> True | Some (minD, _) \<Rightarrow> d < minD)
         then Some (d, fst entry, p, i_hp (snd entry))
         else acc)"

definition findClosest ::
  "tower \<Rightarrow> (string \<times> info) list \<Rightarrow> (real \<times> string \<times> vec3 \<times> real) option" where
  "findClosest tw entries = fold (scanStep tw) entries None"

definition towerDamage :: "tower \<Rightarrow> real" where
  "towerDamage tw = js_or (c_dmg (towerConfig tw)) 1 + js_or (t_dmgBonus tw) 0"

definition towerSplash :: "tower \<Rightarrow> real" where
  "towerSplash tw = (case c_splash (towerConfig tw) of None \<Rightarrow> 0 | Some x \<Rightarrow> js_or x 0)"

definition setLastShot :: "string \<Rightarrow> real \<Rightarrow> game \<Rightarrow> game" where
  "setLastShot ident v s =
     s\<lparr>towers := map (\<lambda>x. if t_id x = ident then x\<lparr>t_lastShot := v\<rparr> else x) (towers s)\<rparr>"

text \<open>The frame callback of \<open>TowerMesh\<close>; \<open>newId\<close> is the id of the projectile it may spawn.\<close>

definition towerFrame :: "real \<Rightarrow> string \<Rightarrow> tower \<Rightarrow> game \<Rightarrow> game" where
  "towerFrame dt newId tw s =
     (let lastShot = t_lastShot tw + dt
      in if lastShot < fireInterval tw then setLastShot (t_id tw) lastShot s
         else (case findClosest tw (enemyPositions s) of
                 None \<Rightarrow> setLastShot (t_id tw) lastShot s
               | Some (minD, cid, cpos, chp) \<Rightarrow>
                   spawnProjectile newId (t_id tw) (t_pos tw) cid
                     (towerDamage tw) (towerSplash tw)
                     (setLastShot (t_id tw) 0 s)))"

section \<open>Projectiles and damage\<close>

text \<open>\<open>(projectiles.find(p => p.id === projId)?.dmg) || 1\<close>\<close>

definition hitDamage :: "projectile list \<Rightarrow> string \<Rightarrow> real" where
  "hitDamage projs projId =
     (case find (\<lambda>p. p_id p = projId) projs of
        None \<Rightarrow> 1
      | Some p \<Rightarrow> js_or (p_dmg p) 1)"

text \<open>
  \<open>byId\<close> maps an id to the object of \<open>updated\<close> that carries it, here to its
  index; of two enemies with one id the \<open>Map\<close> constructor keeps the later.
\<close>

definition byId :: "enemy list \<Rightarrow> string \<Rightarrow> nat option" where
  "byId updated = map_of (rev (zip (map e_id updated) [0..<length updated]))"

definition splashOne :: "(string \<times> info) list \<Rightarrow> vec3 \<Rightarrow> real \<Rightarrow> real \<Rightarrow> enemy \<Rightarrow> enemy" where
  "splashOne cache hitPos splash d e =
     (case map_of cache (e_id e) of
        None \<Rightarrow> e
      | Some posObj \<Rightarrow>
          if dist_vec (i_pos posObj) hitPos \<le> splash then e\<lparr>e_hp := e_hp e - d\<rparr> else e)"

text \<open>The enemies after the direct and the splash damage, before the dead are filtered out.\<close>

definition damaged :: "projectile list \<Rightarrow> (string \<times> info) list \<Rightarrow> string \<Rightarrow> hitInfo
    \<Rightarrow> nat \<Rightarrow> enemy list \<Rightarrow> enemy list" where
  "damaged projs cache projId h ti updated =
     (let d = hitDamage projs projId;
          updated1 = updated[ti := (updated ! ti)\<lparr>e_hp := e_hp (updated ! ti) - d\<rparr>]
      in if h_splash h \<noteq> 0
         then map (splashOne cache (h_hitPos h) (h_splash h) d) updated1
         else updated1)"

definition evictDead :: "enemy list \<Rightarrow> (string \<times> info) list \<Rightarrow> (string \<times> info) list" where
  "evictDead es cache = fold (\<lambda>e c. if e_hp e \<le> 0 then AList.delete (e_id e) c else c) es cache"

text \<open>
  \<open>handleProjectileHit\<close>. The list \<open>projectiles\<close> that the damage is looked up in is
  the one of the closure, as it was before the projectile was removed.
\<close>

definition handleProjectileHit :: "string \<Rightarrow> hitInfo option \<Rightarrow> game \<Rightarrow> game" where
  "handleProjectileHit projId hitInfo s =
     (let projs = projectiles s;
          s1 = s\<lparr>projectiles := filter (\<lambda>p. p_id p \<noteq> projId) (projectiles s)\<rparr>
      in case hitInfo of
           None \<Rightarrow> s1
         | Some h \<Rightarrow>
             (case byId (enemies s1) (h_targetId h) of
                None \<Rightarrow> s1
              | Some ti \<Rightarrow>
                  (let updated = damaged projs (enemyPositions s1) projId h ti (enemies s1);
                       reward = 10 * real (length (filter (\<lambda>e. e_hp e \<le> 0) updated))
                   in s1\<lparr>enemies := filter (\<lambda>e. \<not> e_hp e \<le> 0) updated,
                         enemyPositions := evictDead updated (enemyPositions s1),
                         money := (if reward \<noteq> 0 then money s1 + reward else money s1)\<rparr>)))"

definition setPosition :: "string \<Rightarrow> vec3 \<Rightarrow> game \<Rightarrow> game" where
  "setPosition ident v s =
     s\<lparr>projectiles := map (\<lambda>x. if p_id x = ident then x\<lparr>p_position := v\<rparr> else x)
        (projectiles s)\<rparr>"

text \<open>
  The frame callback of \<open>ProjectileMesh\<close>: the mesh moves by \<open>speed \<sqdot> dt\<close>
  (\<open>speed = 12\<close>) towards the cached position of the target, and reports a hit when
  its distance to it in the plane of \<open>x\<close> and \<open>z\<close> is below 0.6.
\<close>

fun advance :: "real \<Rightarrow> vec3 \<Rightarrow> vec3 \<Rightarrow> vec3" where
  "advance dt (x, y, z) (to0, to1, to2) =
     (let d0 = to0 - x; d1 = to1 - y; d2 = to2 - z;
          len = max 0.0001 (sqrt (d0 * d0 + d1 * d1 + d2 * d2))
      in (x + (d0 / len) * 12 * dt, y + (d1 / len) * 12 * dt, z + (d2 / len) * 12 * dt))"

fun planarDist :: "vec3 \<Rightarrow> vec3 \<Rightarrow> real" where
  "planarDist (x, y, z) (to0, to1, to2) = sqrt ((x - to0)\<^sup>2 + (z - to2)\<^sup>2)"

definition projectileFrame :: "real \<Rightarrow> projectile \<Rightarrow> game \<Rightarrow> game" where
  "projectileFrame dt p s =
     (case map_of (enemyPositions s) (p_targetId p) of
        None \<Rightarrow> handleProjectileHit (p_id p) None s
      | Some target \<Rightarrow>
          (let to = i_pos target;
               position = advance dt (p_position p) to;
               s' = setPosition (p_id p) position s
           in if planarDist position to < 0.6
              then handleProjectileHit (p_id p)
                     (Some \<lparr>h_targetId = p_targetId p, h_splash = p_splash p,
                            h_hitPos = position\<rparr>) s'
              else s'))"

text \<open>The effect that runs when \<open>enemies\<close> has changed.\<close>

definition cleanProjectiles :: "game \<Rightarrow> game" where
  "cleanProjectiles s =
     s\<lparr>projectiles := filter (\<lambda>p. map_of (enemyPositions s) (p_targetId p) \<noteq> None)
        (projectiles s)\<rparr>"

section \<open>Commands\<close>

definition onPlaceTower :: "real \<Rightarrow> real \<Rightarrow> string \<Rightarrow> game \<Rightarrow> alert + game" where
  "onPlaceTower x z newId s =
     (case TOWER_TYPES (placingType s) of
        None \<Rightarrow> Inl UnknownTower
      | Some cfg \<Rightarrow>
          if money s < c_cost cfg then Inl NoMoneyPlace
          else Inr (s\<lparr>towers := towers s @
                       [\<lparr>t_id = newId, t_pos = (Math_round x, 0, Math_round z),
                         t_type = placingType s, t_level = 1, t_dmgBonus = 0,
                         t_rangeBonus = 0, t_lastShot = 0\<rparr>],
                     money := money s - c_cost cfg\<rparr>))"

text \<open>
  \<open>upgradeTower\<close> maps over the towers; \<open>m\<close> is \<open>money\<close> as the closure holds it.
  The result is the new list, the sum of the costs handed to \<open>setMoney\<close> and the
  alerts raised. A tower whose type is not in the table makes \<open>cfg.cost\<close> throw.
\<close>

fun upgradeAll :: "string \<Rightarrow> real \<Rightarrow> tower list \<Rightarrow> error + (tower list \<times> real \<times> alert list)" where
  "upgradeAll towerId m [] = Inr ([], 0, [])"
| "upgradeAll towerId m (t # ts) =
     (if t_id t \<noteq> towerId
      then (case upgradeAll towerId m ts of
              Inl e \<Rightarrow> Inl e
            | Inr (ts', c, al) \<Rightarrow> Inr (t # ts', c, al))
      else (case TOWER_TYPES (t_type t) of
              None \<Rightarrow> Inl TypeError
            | Some cfg \<Rightarrow>
                (let cost = Math_round (c_cost cfg * 1.6 ^ t_level t)
                 in case upgradeAll towerId m ts of
                      Inl e \<Rightarrow> Inl e
                    | Inr (ts', c, al) \<Rightarrow>
                        if m < cost then Inr (t # ts', c, NoMoneyUpgrade # al)
                        else Inr (t\<lparr>t_level := t_level t + 1,
                                    t_dmgBonus := js_or (t_dmgBonus t) 0
                                       + Math_round (c_dmg cfg * 0.6),
                                    t_rangeBonus := js_or (t_rangeBonus t) 0 + 0.8\<rparr> # ts',
                                  cost + c, al))))"

definition upgradeTower :: "string \<Rightarrow> game \<Rightarrow> error + (alert list \<times> game)" where
  "upgradeTower towerId s =
     (case upgradeAll towerId (money s) (towers s) of
        Inl e \<Rightarrow> Inl e
      | Inr (ts, c, al) \<Rightarrow> Inr (al, s\<lparr>towers := ts, money := money s - c\<rparr>))"

definition sellTower :: "string \<Rightarrow> game \<Rightarrow> error + game" where
  "sellTower towerId s =
     (let s1 = s\<lparr>towers := filter (\<lambda>t. t_id t \<noteq> towerId) (towers s)\<rparr>
      in case find (\<lambda>x. t_id x = towerId) (towers s) of
           None \<Rightarrow> Inr s1
         | Some t \<Rightarrow>
             (case TOWER_TYPES (t_type t) of
                None \<Rightarrow> Inl TypeError
              | Some cfg \<Rightarrow> Inr (s1\<lparr>money := money s1 + Math_round (c_cost cfg * 0.5)\<rparr>)))"

definition resetGame :: "game \<Rightarrow> game" where
  "resetGame s = s\<lparr>enemies := [], projectiles := [], towers := [], money := 100,
     lives := 10, wave := 0, enemyPositions := []\<rparr>"

text \<open>
  The stored save after \<open>JSON.parse\<close>: each field is absent or holds its value. The
  numeric fields hold numbers.
\<close>

record save =
  sv_money :: "real option"
  sv_lives :: "real option"
  sv_wave :: "real option"
  sv_towers :: "tower list option"

definition saveGame :: "game \<Rightarrow> save" where
  "saveGame s = \<lparr>sv_money = Some (money s), sv_lives = Some (lives s),
     sv_wave = Some (wave s), sv_towers = Some (towers s)\<rparr>"

text \<open>\<open>obj.f || d\<close> on a field that may be absent.\<close>

definition or_field :: "real option \<Rightarrow> real \<Rightarrow> real" where
  "or_field v d = (case v of None \<Rightarrow> d | Some x \<Rightarrow> js_or x d)"

definition loadGame :: "save option \<Rightarrow> game \<Rightarrow> alert + game" where
  "loadGame stored s =
     (case stored of
        None \<Rightarrow> Inl NoSave
      | Some obj \<Rightarrow>
          Inr (s\<lparr>money := or_field (sv_money obj) 100,
                 lives := or_field (sv_lives obj) 10,
                 wave := or_field (sv_wave obj) 0,
                 towers := (case sv_towers obj of None \<Rightarrow> [] | Some ts \<Rightarrow> ts)\<rparr>))"

section \<open>Notions of the statements\<close>

text \<open>
  What the claims about towers speak of: an entry of the position cache is in range of
  a tower, and the projectile a tower spawns at a target.
\<close>

definition inRange :: "tower \<Rightarrow> info \<Rightarrow> bool" where
  "inRange tw i = (dist_vec (i_pos i) (t_pos tw) \<le> c_range (towerConfig tw) + t_rangeBonus tw)"

definition shot :: "string \<Rightarrow> tower \<Rightarrow> string \<Rightarrow> projectile" where
  "shot newId tw targetId = \<lparr>p_id = newId, p_from = t_pos tw, p_targetId = targetId,
     p_dmg = towerDamage tw, p_splash = towerSplash tw, p_position = t_pos tw\<rparr>"

text \<open>The splash test of one enemy: it has a cache entry within the radius of the hit.\<close>

definition inSplash :: "(string \<times> info) list \<Rightarrow> hitInfo \<Rightarrow> enemy \<Rightarrow> bool" where
  "inSplash cache h e =
     (case map_of cache (e_id e) of
        None \<Rightarrow> False
      | Some posObj \<Rightarrow> dist_vec (i_pos posObj) (h_hitPos h) \<le> h_splash h)"

text \<open>
  The damage-resolution pass of a tick: the reports \<open>onHit(projId, hitInfo)\<close> of the
  frame, handled in the order in which they were produced.
\<close>

definition resolveReports :: "(string \<times> hitInfo option) list \<Rightarrow> game \<Rightarrow> game" where
  "resolveReports rs s = fold (\<lambda>r. handleProjectileHit (fst r) (snd r)) rs s"

text \<open>
  The enemy pass of a frame: the callback of every mounted \<open>EnemyMesh\<close> runs once, in
  the order of the list. An error of one callback ends the pass.
\<close>

fun enemyFrames :: "real \<Rightarrow> enemy list \<Rightarrow> game \<Rightarrow> error + game" where
  "enemyFrames dt [] s = Inr s"
| "enemyFrames dt (e # es) s =
     (case enemyFrame dt e s of Inl err \<Rightarrow> Inl err | Inr s' \<Rightarrow> enemyFrames dt es s')"

definition enemyPass :: "real \<Rightarrow> game \<Rightarrow> error + game" where
  "enemyPass dt s = enemyFrames dt (enemies s) s"

text \<open>
  The states the game can be in: from the initial state by the timer callbacks, the
  frame callbacks of the meshes (in any order), the effect on \<open>enemies\<close> and the
  commands of the panel. The random id of a new enemy is not the id of a live one.
\<close>

inductive reachable :: "game \<Rightarrow> bool" where
  init: "reachable initGame"
| spawn: "reachable s \<Longrightarrow> newId \<notin> e_id ` set (enemies s) \<Longrightarrow>
    reachable (spawnEnemy newId ty hp s)"
| wave: "reachable s \<Longrightarrow> reachable (fst (nextWave s))"
| enemy: "reachable s \<Longrightarrow> e \<in> set (enemies s) \<Longrightarrow> 0 \<le> dt \<Longrightarrow>
    enemyFrame dt e s = Inr s' \<Longrightarrow> reachable s'"
| tower: "reachable s \<Longrightarrow> tw \<in> set (towers s) \<Longrightarrow> reachable (towerFrame dt newId tw s)"
| projectile: "reachable s \<Longrightarrow> p \<in> set (projectiles s) \<Longrightarrow>
    reachable (projectileFrame dt p s)"
| clean: "reachable s \<Longrightarrow> reachable (cleanProjectiles s)"
| place: "reachable s \<Longrightarrow> onPlaceTower x z newId s = Inr s' \<Longrightarrow> reachable s'"
| upgrade: "reachable s \<Longrightarrow> upgradeTower towerId s = Inr (al, s') \<Longrightarrow> reachable s'"
| sell: "reachable s \<Longrightarrow> sellTower towerId s = Inr s' \<Longrightarrow> reachable s'"
| reset: "reachable s \<Longrightarrow> reachable (resetGame s)"
| load: "reachable s \<Longrightarrow> loadGame stored s = Inr s' \<Longrightarrow> reachable s'"

text \<open>
  Modelled from the spec: the order of the passes within one tick (section 5: enemy
  pass, then tower targeting, then projectiles with their damage resolution). The
  frame loop that calls the callbacks is not part of the repository. A read point of a
  tick is a state after the enemy pass of the tick, in which towers and projectiles
  read the position cache.
\<close>

inductive readPoint :: "game \<Rightarrow> bool" where
  pass: "reachable s \<Longrightarrow> 0 \<le> dt \<Longrightarrow> enemyPass dt s = Inr s' \<Longrightarrow> readPoint s'"
| tower: "readPoint s \<Longrightarrow> tw \<in> set (towers s) \<Longrightarrow> readPoint (towerFrame dt newId tw s)"
| projectile: "readPoint s \<Longrightarrow> p \<in> set (projectiles s) \<Longrightarrow>
    readPoint (projectileFrame dt p s)"

text \<open>
  An enemy is on the path: its progress is not negative and has not reached the last
  waypoint. \<open>cacheInv\<close> holds in every reachable state, \<open>cacheFull\<close> at the read
  points.
\<close>

definition onPath :: "enemy \<Rightarrow> bool" where
  "onPath e \<longleftrightarrow> 0 \<le> e_progress e \<and> \<lfloor>e_progress e\<rfloor> < int (length PATH) - 1"

definition cacheInv :: "game \<Rightarrow> bool" where
  "cacheInv s \<longleftrightarrow> distinct (map e_id (enemies s))
     \<and> fst ` set (enemyPositions s) \<subseteq> e_id ` set (enemies s)
     \<and> (\<forall>e \<in> set (enemies s). onPath e)"

definition cacheFull :: "game \<Rightarrow> bool" where
  "cacheFull s \<longleftrightarrow> cacheInv s \<and> e_id ` set (enemies s) \<subseteq> fst ` set (enemyPositions s)"

section \<open>Concrete values for the examples\<close>

definition tw1 :: tower where
  "tw1 = \<lparr>t_id = ''a'', t_pos = (0, 0, 0), t_type = ''sniper'', t_level = 2,
     t_dmgBonus = 3, t_rangeBonus = 0.8, t_lastShot = 0\<rparr>"

definition save0 :: save where
  "save0 = \<lparr>sv_money = Some 0, sv_lives = Some 0, sv_wave = Some 0, sv_towers = None\<rparr>"

definition tw2 :: tower where
  "tw2 = \<lparr>t_id = ''b'', t_pos = (0, 0, 0), t_type = ''basic'', t_level = 1,
     t_dmgBonus = 0, t_rangeBonus = 0, t_lastShot = 0.5\<rparr>"

definition cache1 :: "(string \<times> info) list" where
  "cache1 = [(''e1'', \<lparr>i_pos = (1, 0, 0), i_hp = 3\<rparr>)]"

definition pr1 :: projectile where
  "pr1 = \<lparr>p_id = ''p1'', p_from = (0, 0, 0), p_targetId = ''e9'', p_dmg = 5,
     p_splash = 0, p_position = (1, 0, 1)\<rparr>"

definition en1 :: enemy where
  "en1 = \<lparr>e_id = ''e1'', e_type = ''basic'', e_hp = 3, e_progress = 0.5\<rparr>"

definition en2 :: enemy where
  "en2 = \<lparr>e_id = ''e2'', e_type = ''fast'', e_hp = 3, e_progress = 0.5\<rparr>"

definition en3 :: enemy where
  "en3 = \<lparr>e_id = ''e3'', e_type = ''cannon'', e_hp = 3, e_progress = 1.5\<rparr>"

definition en4 :: enemy where
  "en4 = \<lparr>e_id = ''e4'', e_type = ''fast'', e_hp = 2, e_progress = 0.5\<rparr>"

definition en5 :: enemy where
  "en5 = \<lparr>e_id = ''e5'', e_type = ''basic'', e_hp = 1, e_progress = 0\<rparr>"

definition cache2 :: "(string \<times> info) list" where
  "cache2 = [(''e1'', \<lparr>i_pos = (1, 0, 0), i_hp = 5\<rparr>),
             (''e2'', \<lparr>i_pos = (1, 0, 2), i_hp = 3\<rparr>),
             (''e3'', \<lparr>i_pos = (4, 0, 0), i_hp = 3\<rparr>),
             (''e4'', \<lparr>i_pos = (1, 0, 0), i_hp = 2\<rparr>)]"

definition pr2 :: projectile where
  "pr2 = \<lparr>p_id = ''p2'', p_from = (0, 0, 0), p_targetId = ''e1'', p_dmg = 2,
     p_splash = 2.2, p_position = (1, 0, 0)\<rparr>"

definition hit2 :: hitInfo where
  "hit2 = \<lparr>h_targetId = ''e1'', h_splash = 2.2, h_hitPos = (1, 0, 0)\<rparr>"

definition game2 :: game where
  "game2 = initGame\<lparr>enemies := [en1\<lparr>e_hp := 5\<rparr>, en2, en3, en4, en5],
     enemyPositions := cache2, projectiles := [pr2]\<rparr>"

definition twZ :: tower where
  "twZ = \<lparr>t_id = ''z'', t_pos = (0, 0, 0), t_type = ''basic'', t_level = 1,
     t_dmgBonus = -1, t_rangeBonus = 0, t_lastShot = 0\<rparr>"

definition hit1 :: hitInfo where
  "hit1 = \<lparr>h_targetId = ''e1'', h_splash = 0, h_hitPos = (1, 0, 0)\<rparr>"

definition twC :: tower where
  "twC = \<lparr>t_id = ''c'', t_pos = (0, 0, 0), t_type = ''cannon'', t_level = 1,
     t_dmgBonus = -2, t_rangeBonus = 0, t_lastShot = 0\<rparr>"

definition hit9 :: hitInfo where
  "hit9 = \<lparr>h_targetId = ''e9'', h_splash = 2.2, h_hitPos = (1, 0, 0)\<rparr>"

definition hit3 :: hitInfo where
  "hit3 = \<lparr>h_targetId = ''e1'', h_splash = 2.2, h_hitPos = (1, 0, 0)\<rparr>"

definition pr5 :: projectile where
  "pr5 = \<lparr>p_id = ''p5'', p_from = (0, 0, 0), p_targetId = ''e1'', p_dmg = 5,
     p_splash = 0, p_position = (1, 0, 0)\<rparr>"

definition game5 :: game where
  "game5 = initGame\<lparr>enemies := [en1\<lparr>e_hp := 8\<rparr>], enemyPositions := cache1,
     projectiles := [pr5]\<rparr>"

definition hit4 :: hitInfo where
  "hit4 = \<lparr>h_targetId = ''e4'', h_splash = 0, h_hitPos = (1, 0, 0)\<rparr>"

definition game4 :: game where
  "game4 = initGame\<lparr>enemies := [en1, en4], enemyPositions := cache2,
     projectiles := [pr2\<lparr>p_id := ''pa'', p_targetId := ''e4''\<rparr>,
                     pr2\<lparr>p_id := ''pb'', p_targetId := ''e4''\<rparr>]\<rparr>"

definition game6 :: game where
  "game6 = initGame\<lparr>enemies := [en1, en2\<lparr>e_progress := 3.5\<rparr>], enemyPositions := cache2\<rparr>"

definition game7 :: game where
  "game7 = spawnEnemy ''e1'' ''basic'' 3 initGame"

section \<open>Basic facts\<close>

lemma js_or_zero [simp]: "js_or x 0 = x"
  by (simp add: js_or_def)

section \<open>Upgrading a tower\<close>

lemma upgradeAll_other:
  "towerId \<notin> set (map t_id ts) \<Longrightarrow> upgradeAll towerId m ts = Inr (ts, 0, [])"
  by (induction ts) auto

lemma upgradeAll_at:
  assumes "distinct (map t_id ts)" and "i < length ts"
    and "TOWER_TYPES (t_type (ts ! i)) = Some cfg"
  shows "upgradeAll (t_id (ts ! i)) m ts =
    (if m < Math_round (c_cost cfg * 1.6 ^ t_level (ts ! i))
     then Inr (ts, 0, [NoMoneyUpgrade])
     else Inr (ts[i := (ts ! i)\<lparr>t_level := t_level (ts ! i) + 1,
                   t_dmgBonus := t_dmgBonus (ts ! i) + Math_round (c_dmg cfg * 0.6),
                   t_rangeBonus := t_rangeBonus (ts ! i) + 0.8\<rparr>],
               Math_round (c_cost cfg * 1.6 ^ t_level (ts ! i)), []))"
  using assms
proof (induction ts arbitrary: i)
  case Nil
  then show ?case by simp
next
  case (Cons a ts)
  show ?case
  proof (cases i)
    case 0
    with Cons.prems have "t_id a \<notin> set (map t_id ts)" by simp
    then have "upgradeAll (t_id a) m ts = Inr (ts, 0, [])" by (rule upgradeAll_other)
    with 0 Cons.prems show ?thesis
      by (simp add: Let_def)
  next
    case (Suc j)
    with Cons.prems have j: "j < length ts" "distinct (map t_id ts)"
      "TOWER_TYPES (t_type (ts ! j)) = Some cfg" by simp_all
    from Suc Cons.prems have ne: "t_id a \<noteq> t_id (ts ! j)" by auto
    from Cons.IH [OF j(2) j(1) j(3)] Suc ne show ?thesis by simp
  qed
qed

text \<open>
  C8. The upgrade of the tower \<open>t\<close> of a known kind at level \<open>L\<close> costs
  \<open>round(cost \<sqdot> 1.6^L)\<close>. With less money than that the command raises the alert and
  returns the state as it was: level, damage bonus, range bonus and money are the
  same. Otherwise the money decreases by the cost, the level grows by one, the damage
  bonus by \<open>round(dmg \<sqdot> 0.6)\<close> and the range bonus by 0.8; no other tower changes.
\<close>

theorem upgradeTower_cost_and_effect:
  assumes "distinct (map t_id (towers s))" and "i < length (towers s)"
    and "towers s ! i = t" and "TOWER_TYPES (t_type t) = Some cfg"
  shows "upgradeTower (t_id t) s =
    (if money s < Math_round (c_cost cfg * 1.6 ^ t_level t)
     then Inr ([NoMoneyUpgrade], s)
     else Inr ([], s\<lparr>towers := (towers s)[i := t\<lparr>t_level := t_level t + 1,
                        t_dmgBonus := t_dmgBonus t + Math_round (c_dmg cfg * 0.6),
                        t_rangeBonus := t_rangeBonus t + 0.8\<rparr>],
                      money := money s - Math_round (c_cost cfg * 1.6 ^ t_level t)\<rparr>))"
  using upgradeAll_at [of "towers s" i cfg "money s"] assms
  by (simp add: upgradeTower_def)

theorem upgradeTower_cost_and_effect_witness:
  "upgradeTower ''a'' (initGame\<lparr>towers := [tw1], money := 300\<rparr>) =
     Inr ([], initGame\<lparr>towers := [tw1\<lparr>t_level := 3, t_dmgBonus := 6, t_rangeBonus := 1.6\<rparr>],
                      money := 82\<rparr>)
   \<and> upgradeTower ''a'' (initGame\<lparr>towers := [tw1], money := 217\<rparr>) =
     Inr ([NoMoneyUpgrade], initGame\<lparr>towers := [tw1], money := 217\<rparr>)"
  using upgradeTower_cost_and_effect [of "initGame\<lparr>towers := [tw1], money := 300\<rparr>" 0 tw1 TOWER_sniper]
    upgradeTower_cost_and_effect [of "initGame\<lparr>towers := [tw1], money := 217\<rparr>" 0 tw1 TOWER_sniper]
  by (simp add: tw1_def initGame_def TOWER_TYPES_def TOWER_sniper_def Math_round_def power2_eq_square)

section \<open>Loading a save\<close>

text \<open>
  C10. A stored save is loaded field by field with \<open>obj.f || default\<close>: a money, lives
  or wave field that is present with the value 0 is replaced by the default (100, 10,
  0) exactly as a missing field is, and a present value other than 0 is kept.
\<close>

theorem loadGame_zero_is_default:
  assumes "sv_money obj = Some 0 \<or> sv_lives obj = Some 0 \<or> sv_wave obj = Some 0"
  shows "\<exists>s'. loadGame (Some obj) s = Inr s'
    \<and> (sv_money obj = Some 0 \<longrightarrow> money s' = 100)
    \<and> (sv_lives obj = Some 0 \<longrightarrow> lives s' = 10)
    \<and> (sv_wave obj = Some 0 \<longrightarrow> wave s' = 0)
    \<and> (sv_money obj = None \<longrightarrow> money s' = 100)
    \<and> (sv_lives obj = None \<longrightarrow> lives s' = 10)
    \<and> (sv_wave obj = None \<longrightarrow> wave s' = 0)
    \<and> (\<forall>x. sv_money obj = Some x \<and> x \<noteq> 0 \<longrightarrow> money s' = x)
    \<and> (\<forall>x. sv_lives obj = Some x \<and> x \<noteq> 0 \<longrightarrow> lives s' = x)
    \<and> (\<forall>x. sv_wave obj = Some x \<and> x \<noteq> 0 \<longrightarrow> wave s' = x)"
  by (simp add: loadGame_def or_field_def js_or_def)

theorem loadGame_zero_is_default_witness:
  "\<exists>s'. loadGame (Some save0) (initGame\<lparr>money := 7, lives := 2, wave := 4\<rparr>) = Inr s'
     \<and> money s' = 100 \<and> lives s' = 10 \<and> wave s' = 0"
  using loadGame_zero_is_default [of save0 "initGame\<lparr>money := 7, lives := 2, wave := 4\<rparr>"]
  by (simp add: save0_def)

section \<open>Waves\<close>

text \<open>
  C5. Starting the wave that becomes number \<open>W \<ge> 1\<close> sets exactly
  \<open>5 + floor(W \<sqdot> 1.5)\<close> timers; timer \<open>i\<close> has the delay \<open>i \<sqdot> 700\<close> ms, that is
  \<open>i \<sqdot> 0.7\<close> s, and has captured \<open>W\<close>. Its callback draws \<open>r1\<close> and picks
  \<open>fast\<close> exactly when \<open>r1 < min(0.25, 0.02 \<sqdot> W)\<close>; otherwise it draws \<open>r2\<close> and
  picks \<open>cannon\<close> exactly when \<open>r2 < 0.12\<close>, and \<open>basic\<close> otherwise (for draws uniform
  on \<open>[0, 1)\<close> these thresholds are the probabilities). The enemy is spawned with
  \<open>6 + W\<close> hit points when it is a cannon and \<open>3 + floor(W / 2)\<close> otherwise.
\<close>

theorem nextWave_schedule:
  assumes "wave s + 1 = W" and "1 \<le> W"
  shows "wave (fst (nextWave s)) = W
    \<and> int (length (snd (nextWave s))) = 5 + \<lfloor>W * 1.5\<rfloor>
    \<and> (\<forall>i < length (snd (nextWave s)).
          fst (snd (nextWave s) ! i) / 1000 = real i * 0.7
        \<and> snd (snd (nextWave s) ! i) = W)
    \<and> (\<forall>r1 r2 newId st.
          (chooseType W r1 r2 = ''fast'' \<longleftrightarrow> r1 < min 0.25 (0.02 * W))
        \<and> (chooseType W r1 r2 = ''cannon'' \<longleftrightarrow> \<not> r1 < min 0.25 (0.02 * W) \<and> r2 < 0.12)
        \<and> (chooseType W r1 r2 = ''basic'' \<longleftrightarrow> \<not> r1 < min 0.25 (0.02 * W) \<and> \<not> r2 < 0.12)
        \<and> spawnEvent W r1 r2 newId st =
            st\<lparr>enemies := enemies st @
              [\<lparr>e_id = newId, e_type = chooseType W r1 r2,
                e_hp = (if chooseType W r1 r2 = ''cannon'' then 6 + W
                        else 3 + of_int \<lfloor>W / 2\<rfloor>),
                e_progress = 0\<rparr>]\<rparr>)"
proof -
  from assms have "0 \<le> \<lfloor>W * 1.5\<rfloor>" by simp
  then have len: "int (length (snd (nextWave s))) = 5 + \<lfloor>W * 1.5\<rfloor>"
    using assms(1) by (simp add: nextWave_def Let_def)
  have w: "wave (fst (nextWave s)) = W"
    using assms(1) by (simp add: nextWave_def Let_def)
  have tm: "\<forall>i < length (snd (nextWave s)).
          fst (snd (nextWave s) ! i) / 1000 = real i * 0.7
        \<and> snd (snd (nextWave s) ! i) = W"
    using assms(1) by (simp add: nextWave_def Let_def)
  have ev: "\<forall>r1 r2 newId st.
          (chooseType W r1 r2 = ''fast'' \<longleftrightarrow> r1 < min 0.25 (0.02 * W))
        \<and> (chooseType W r1 r2 = ''cannon'' \<longleftrightarrow> \<not> r1 < min 0.25 (0.02 * W) \<and> r2 < 0.12)
        \<and> (chooseType W r1 r2 = ''basic'' \<longleftrightarrow> \<not> r1 < min 0.25 (0.02 * W) \<and> \<not> r2 < 0.12)
        \<and> spawnEvent W r1 r2 newId st =
            st\<lparr>enemies := enemies st @
              [\<lparr>e_id = newId, e_type = chooseType W r1 r2,
                e_hp = (if chooseType W r1 r2 = ''cannon'' then 6 + W
                        else 3 + of_int \<lfloor>W / 2\<rfloor>),
                e_progress = 0\<rparr>]\<rparr>"
    by (simp add: chooseType_def spawnEvent_def spawnEnemy_def Let_def mult.commute)
  from w len tm ev show ?thesis by blast
qed

theorem nextWave_schedule_witness:
  "wave (fst (nextWave initGame)) = 1
   \<and> length (snd (nextWave initGame)) = 6
   \<and> fst (snd (nextWave initGame) ! 5) / 1000 = 3.5
   \<and> spawnEvent 1 0.5 0.05 ''e'' initGame =
       initGame\<lparr>enemies := [\<lparr>e_id = ''e'', e_type = ''cannon'', e_hp = 7, e_progress = 0\<rparr>]\<rparr>
   \<and> spawnEvent 1 0.01 0.05 ''e'' initGame =
       initGame\<lparr>enemies := [\<lparr>e_id = ''e'', e_type = ''fast'', e_hp = 3, e_progress = 0\<rparr>]\<rparr>"
proof -
  have h: "wave initGame + 1 = 1" "(1::real) \<le> 1" by (simp_all add: initGame_def)
  note t = nextWave_schedule [OF h]
  from t have a: "wave (fst (nextWave initGame)) = 1" by blast
  from t have "int (length (snd (nextWave initGame))) = 5 + \<lfloor>(1::real) * 1.5\<rfloor>" by blast
  then have b: "length (snd (nextWave initGame)) = 6" by simp
  with t have c: "fst (snd (nextWave initGame) ! 5) / 1000 = 3.5" by simp
  from t have d: "spawnEvent 1 0.5 0.05 ''e'' initGame =
       initGame\<lparr>enemies := [\<lparr>e_id = ''e'', e_type = ''cannon'', e_hp = 7, e_progress = 0\<rparr>]\<rparr>"
    by (simp add: chooseType_def initGame_def)
  from t have e: "spawnEvent 1 0.01 0.05 ''e'' initGame =
       initGame\<lparr>enemies := [\<lparr>e_id = ''e'', e_type = ''fast'', e_hp = 3, e_progress = 0\<rparr>]\<rparr>"
    by (simp add: chooseType_def initGame_def)
  from a b c d e show ?thesis by blast
qed

section \<open>The cooldown of a tower\<close>

lemma scanStep_None:
  "scanStep tw e acc = None \<longleftrightarrow> acc = None \<and> \<not> inRange tw (snd e)"
  by (cases acc; cases "i_pos (snd e)") (auto simp: scanStep_def inRange_def Let_def)

lemma fold_scan_None:
  "fold (scanStep tw) es acc = None \<longleftrightarrow> acc = None \<and> (\<forall>e \<in> set es. \<not> inRange tw (snd e))"
  by (induction es arbitrary: acc) (auto simp: scanStep_None)

lemma findClosest_None:
  "findClosest tw es = None \<longleftrightarrow> (\<forall>e \<in> set es. \<not> inRange tw (snd e))"
  by (simp add: findClosest_def fold_scan_None)

lemma scanStep_Some:
  "scanStep tw e acc = Some (d, cid, cpos, chp) \<Longrightarrow>
     acc = Some (d, cid, cpos, chp) \<or> (cid = fst e \<and> inRange tw (snd e))"
  by (cases acc; cases "i_pos (snd e)") (auto simp: scanStep_def inRange_def Let_def split: if_splits)

lemma fold_scan_Some:
  "fold (scanStep tw) es acc = Some (d, cid, cpos, chp) \<Longrightarrow>
     acc = Some (d, cid, cpos, chp) \<or> (\<exists>e \<in> set es. cid = fst e \<and> inRange tw (snd e))"
proof (induction es arbitrary: acc)
  case Nil
  then show ?case by simp
next
  case (Cons a es)
  from Cons.prems have "fold (scanStep tw) es (scanStep tw a acc) = Some (d, cid, cpos, chp)"
    by simp
  from Cons.IH [OF this] show ?case
    using scanStep_Some [of tw a acc d cid cpos chp] by auto
qed

lemma findClosest_Some:
  "findClosest tw es = Some (d, cid, cpos, chp) \<Longrightarrow>
     \<exists>e \<in> set es. cid = fst e \<and> inRange tw (snd e)"
  using fold_scan_Some [of tw es None d cid cpos chp] by (simp add: findClosest_def)

lemma setLastShot_at:
  assumes "distinct (map t_id ts)" and "i < length ts"
  shows "map (\<lambda>x. if t_id x = t_id (ts ! i) then x\<lparr>t_lastShot := v\<rparr> else x) ts
     = ts[i := (ts ! i)\<lparr>t_lastShot := v\<rparr>]"
  using assms
proof (induction ts arbitrary: i)
  case Nil
  then show ?case by simp
next
  case (Cons a ts)
  show ?case
  proof (cases i)
    case 0
    from Cons.prems have "t_id a \<notin> t_id ` set ts" by simp
    then have "\<And>x. x \<in> set ts \<Longrightarrow> t_id x \<noteq> t_id a" by (metis imageI)
    then have "map (\<lambda>x. if t_id x = t_id a then x\<lparr>t_lastShot := v\<rparr> else x) ts = ts"
      by (simp add: map_idI)
    with 0 show ?thesis by simp
  next
    case (Suc j)
    with Cons.prems have "t_id a \<noteq> t_id (ts ! j)" by auto
    with Suc Cons.prems Cons.IH [of j] show ?thesis by simp
  qed
qed

lemma towerFrame_eq:
  assumes "distinct (map t_id (towers s))" and "i < length (towers s)" and "towers s ! i = tw"
  shows "towerFrame dt newId tw s =
    (if fireInterval tw \<le> t_lastShot tw + dt \<and> (\<exists>e \<in> set (enemyPositions s). inRange tw (snd e))
     then s\<lparr>towers := (towers s)[i := tw\<lparr>t_lastShot := 0\<rparr>],
            projectiles := projectiles s @
              [shot newId tw (fst (snd (the (findClosest tw (enemyPositions s)))))]\<rparr>
     else s\<lparr>towers := (towers s)[i := tw\<lparr>t_lastShot := t_lastShot tw + dt\<rparr>]\<rparr>)"
proof -
  have upd: "\<And>v. setLastShot (t_id tw) v s = s\<lparr>towers := (towers s)[i := tw\<lparr>t_lastShot := v\<rparr>]\<rparr>"
    using setLastShot_at [OF assms(1,2)] assms(3) by (simp add: setLastShot_def)
  show ?thesis
  proof (cases "findClosest tw (enemyPositions s)")
    case None
    then show ?thesis
      using findClosest_None [of tw "enemyPositions s"]
      by (simp add: towerFrame_def Let_def upd)
  next
    case (Some r)
    then have "\<exists>e \<in> set (enemyPositions s). inRange tw (snd e)"
      using findClosest_None [of tw "enemyPositions s"] by auto
    with Some show ?thesis
      by (cases r) (auto simp: towerFrame_def Let_def upd spawnProjectile_def shot_def)
  qed
qed

text \<open>
  C7. In one frame of a tower the accumulator \<open>lastShot\<close> grows by \<open>dt\<close>. The tower
  fires (a projectile is appended) exactly when the accumulator has reached
  \<open>max(0.12, fireRate)\<close> and some cache entry is in range, and exactly then the
  accumulator is set to 0; in every other frame it keeps the grown value and nothing is
  spawned. So after a frame that reached the interval without a target, the next frame
  with \<open>dt' \<ge> 0\<close> in which an entry is in range fires.
\<close>

theorem towerFrame_cooldown:
  assumes "distinct (map t_id (towers s))" and "i < length (towers s)" and "towers s ! i = tw"
  shows "(fireInterval tw = max 0.12 (c_fireRate (towerConfig tw)))
    \<and> (if fireInterval tw \<le> t_lastShot tw + dt
           \<and> (\<exists>e \<in> set (enemyPositions s). inRange tw (snd e))
        then \<exists>e \<in> set (enemyPositions s). inRange tw (snd e)
               \<and> towerFrame dt newId tw s =
                   s\<lparr>towers := (towers s)[i := tw\<lparr>t_lastShot := 0\<rparr>],
                     projectiles := projectiles s @ [shot newId tw (fst e)]\<rparr>
        else towerFrame dt newId tw s =
               s\<lparr>towers := (towers s)[i := tw\<lparr>t_lastShot := t_lastShot tw + dt\<rparr>]\<rparr>)
    \<and> (fireInterval tw \<le> t_lastShot tw + dt
          \<and> \<not> (\<exists>e \<in> set (enemyPositions s). inRange tw (snd e)) \<longrightarrow>
        (\<forall>dt' newId' s'. 0 \<le> dt' \<and> distinct (map t_id (towers s')) \<and> i < length (towers s')
            \<and> towers s' ! i = towers (towerFrame dt newId tw s) ! i
            \<and> (\<exists>e \<in> set (enemyPositions s'). inRange tw (snd e)) \<longrightarrow>
            (\<exists>e \<in> set (enemyPositions s'). inRange tw (snd e)
               \<and> towerFrame dt' newId' (towers s' ! i) s' =
                   s'\<lparr>towers := (towers s')[i := tw\<lparr>t_lastShot := 0\<rparr>],
                      projectiles := projectiles s' @ [shot newId' tw (fst e)]\<rparr>)))"
proof -
  note eq = towerFrame_eq
  have fire: "\<exists>e \<in> set (enemyPositions s'). inRange tw' (snd e)
               \<and> towerFrame dt' newId' tw' s' =
                   s'\<lparr>towers := (towers s')[i := tw'\<lparr>t_lastShot := 0\<rparr>],
                     projectiles := projectiles s' @ [shot newId' tw' (fst e)]\<rparr>"
    if a: "distinct (map t_id (towers s'))" "i < length (towers s')" "towers s' ! i = tw'"
      and b: "fireInterval tw' \<le> t_lastShot tw' + dt'"
      and c: "\<exists>e \<in> set (enemyPositions s'). inRange tw' (snd e)"
    for s' tw' dt' newId'
  proof -
    from c obtain r where r: "findClosest tw' (enemyPositions s') = Some r"
      using findClosest_None [of tw' "enemyPositions s'"] by auto
    obtain d cid cpos chp where rr: "r = (d, cid, cpos, chp)" by (cases r) auto
    from findClosest_Some [OF r [unfolded rr]] obtain e where
      e: "e \<in> set (enemyPositions s')" "cid = fst e" "inRange tw' (snd e)" by auto
    from eq [OF a, of dt' newId'] b c r rr e(2)
    have "towerFrame dt' newId' tw' s' =
        s'\<lparr>towers := (towers s')[i := tw'\<lparr>t_lastShot := 0\<rparr>],
           projectiles := projectiles s' @ [shot newId' tw' (fst e)]\<rparr>" by simp
    with e show ?thesis by blast
  qed
  have p1: "fireInterval tw = max 0.12 (c_fireRate (towerConfig tw))"
    by (simp add: fireInterval_def)
  have p2: "if fireInterval tw \<le> t_lastShot tw + dt
           \<and> (\<exists>e \<in> set (enemyPositions s). inRange tw (snd e))
        then \<exists>e \<in> set (enemyPositions s). inRange tw (snd e)
               \<and> towerFrame dt newId tw s =
                   s\<lparr>towers := (towers s)[i := tw\<lparr>t_lastShot := 0\<rparr>],
                     projectiles := projectiles s @ [shot newId tw (fst e)]\<rparr>
        else towerFrame dt newId tw s =
               s\<lparr>towers := (towers s)[i := tw\<lparr>t_lastShot := t_lastShot tw + dt\<rparr>]\<rparr>"
    using fire [OF assms, of dt newId] eq [OF assms, of dt newId] by auto
  have p3: "\<exists>e \<in> set (enemyPositions s'). inRange tw (snd e)
               \<and> towerFrame dt' newId' (towers s' ! i) s' =
                   s'\<lparr>towers := (towers s')[i := tw\<lparr>t_lastShot := 0\<rparr>],
                      projectiles := projectiles s' @ [shot newId' tw (fst e)]\<rparr>"
    if n: "fireInterval tw \<le> t_lastShot tw + dt"
        "\<not> (\<exists>e \<in> set (enemyPositions s). inRange tw (snd e))"
      and a: "0 \<le> dt'" "distinct (map t_id (towers s'))" "i < length (towers s')"
        "towers s' ! i = towers (towerFrame dt newId tw s) ! i"
      and c: "\<exists>e \<in> set (enemyPositions s'). inRange tw (snd e)"
    for dt' newId' s'
  proof -
    let ?tw' = "tw\<lparr>t_lastShot := t_lastShot tw + dt\<rparr>"
    from eq [OF assms, of dt newId] n assms(2) a(4) have t: "towers s' ! i = ?tw'" by simp
    have same: "inRange ?tw' = inRange tw" "fireInterval ?tw' = fireInterval tw"
      "\<And>n x. shot n ?tw' x = shot n tw x"
      by (simp_all add: inRange_def fun_eq_iff fireInterval_def towerConfig_def shot_def
          towerDamage_def towerSplash_def)
    from n(1) a(1) have b: "fireInterval ?tw' \<le> t_lastShot ?tw' + dt'" by (simp add: same)
    from fire [OF a(2,3) t b, of newId'] c show ?thesis by (simp add: same t)
  qed
  from p1 p2 p3 show ?thesis by blast
qed

theorem towerFrame_cooldown_witness:
  "towerFrame 0.4 ''p'' tw2 (initGame\<lparr>towers := [tw2], enemyPositions := cache1\<rparr>) =
     initGame\<lparr>towers := [tw2\<lparr>t_lastShot := 0\<rparr>], enemyPositions := cache1,
       projectiles := [\<lparr>p_id = ''p'', p_from = (0, 0, 0), p_targetId = ''e1'', p_dmg = 1,
          p_splash = 0, p_position = (0, 0, 0)\<rparr>]\<rparr>
   \<and> towerFrame 0.2 ''p'' tw2 (initGame\<lparr>towers := [tw2], enemyPositions := cache1\<rparr>) =
     initGame\<lparr>towers := [tw2\<lparr>t_lastShot := 0.7\<rparr>], enemyPositions := cache1\<rparr>
   \<and> towerFrame 0.4 ''p'' tw2 (initGame\<lparr>towers := [tw2]\<rparr>) =
     initGame\<lparr>towers := [tw2\<lparr>t_lastShot := 0.9\<rparr>]\<rparr>
   \<and> towerFrame 0 ''p'' (tw2\<lparr>t_lastShot := 0.9\<rparr>)
        (initGame\<lparr>towers := [tw2\<lparr>t_lastShot := 0.9\<rparr>], enemyPositions := cache1\<rparr>) =
     initGame\<lparr>towers := [tw2\<lparr>t_lastShot := 0\<rparr>], enemyPositions := cache1,
       projectiles := [\<lparr>p_id = ''p'', p_from = (0, 0, 0), p_targetId = ''e1'', p_dmg = 1,
          p_splash = 0, p_position = (0, 0, 0)\<rparr>]\<rparr>"
proof -
  have cfg: "towerConfig tw2 = TOWER_basic"
    by (simp add: towerConfig_def tw2_def TOWER_TYPES_def)
  have iv: "fireInterval tw2 = 0.8"
    by (simp add: fireInterval_def cfg TOWER_basic_def)
  have rng: "inRange tw2 \<lparr>i_pos = (1, 0, 0), i_hp = 3\<rparr>"
    by (simp add: inRange_def cfg TOWER_basic_def) (simp add: tw2_def)
  have sh: "shot ''p'' tw2 ''e1'' = \<lparr>p_id = ''p'', p_from = (0, 0, 0), p_targetId = ''e1'',
      p_dmg = 1, p_splash = 0, p_position = (0, 0, 0)\<rparr>"
    by (simp add: shot_def towerDamage_def towerSplash_def cfg TOWER_basic_def js_or_def)
      (simp add: tw2_def)
  have ls: "t_lastShot tw2 = 0.5" by (simp add: tw2_def)
  let ?s = "initGame\<lparr>towers := [tw2], enemyPositions := cache1\<rparr>"
  have a: "towerFrame 0.4 ''p'' tw2 ?s =
     initGame\<lparr>towers := [tw2\<lparr>t_lastShot := 0\<rparr>], enemyPositions := cache1,
       projectiles := [\<lparr>p_id = ''p'', p_from = (0, 0, 0), p_targetId = ''e1'', p_dmg = 1,
          p_splash = 0, p_position = (0, 0, 0)\<rparr>]\<rparr>"
    using towerFrame_cooldown [of ?s 0 tw2 "0.4" "''p''"] rng sh
    by (simp add: iv ls cache1_def initGame_def)
  have b: "towerFrame 0.2 ''p'' tw2 ?s =
     initGame\<lparr>towers := [tw2\<lparr>t_lastShot := 0.7\<rparr>], enemyPositions := cache1\<rparr>"
    using towerFrame_cooldown [of ?s 0 tw2 "0.2" "''p''"]
    by (simp add: iv ls cache1_def initGame_def)
  let ?s0 = "initGame\<lparr>towers := [tw2]\<rparr>"
  have c: "towerFrame 0.4 ''p'' tw2 ?s0 = initGame\<lparr>towers := [tw2\<lparr>t_lastShot := 0.9\<rparr>]\<rparr>"
    using towerFrame_cooldown [of ?s0 0 tw2 "0.4" "''p''"]
    by (simp add: iv ls initGame_def)
  let ?s1 = "initGame\<lparr>towers := [tw2\<lparr>t_lastShot := 0.9\<rparr>], enemyPositions := cache1\<rparr>"
  have h0: "distinct (map t_id (towers ?s0))" "0 < length (towers ?s0)" "towers ?s0 ! 0 = tw2"
    by simp_all
  have pre: "fireInterval tw2 \<le> t_lastShot tw2 + 0.4
      \<and> \<not> (\<exists>e \<in> set (enemyPositions ?s0). inRange tw2 (snd e))"
    by (simp add: iv ls initGame_def)
  have nxt: "0 \<le> (0::real) \<and> distinct (map t_id (towers ?s1)) \<and> 0 < length (towers ?s1)
      \<and> towers ?s1 ! 0 = towers (towerFrame 0.4 ''p'' tw2 ?s0) ! 0
      \<and> (\<exists>e \<in> set (enemyPositions ?s1). inRange tw2 (snd e))"
    using rng c by (simp add: cache1_def)
  from towerFrame_cooldown [OF h0, of "0.4" "''p''", THEN conjunct2, THEN conjunct2,
      THEN mp, OF pre, THEN spec, THEN spec, THEN spec, THEN mp, OF nxt, of "''p''"]
  have d: "towerFrame 0 ''p'' (tw2\<lparr>t_lastShot := 0.9\<rparr>) ?s1 =
     initGame\<lparr>towers := [tw2\<lparr>t_lastShot := 0\<rparr>], enemyPositions := cache1,
       projectiles := [\<lparr>p_id = ''p'', p_from = (0, 0, 0), p_targetId = ''e1'', p_dmg = 1,
          p_splash = 0, p_position = (0, 0, 0)\<rparr>]\<rparr>"
    using sh c by (simp add: cache1_def initGame_def)
  from a b c d show ?thesis by blast
qed

section \<open>A projectile without a target\<close>

text \<open>
  C9. A projectile whose target id has no entry in the position cache when its frame
  starts reports \<open>onHit(id, null)\<close>: it is removed from the projectile list, and the
  enemies with their hit points, the cache, the money and the lives stay as they were.
\<close>

theorem projectileFrame_no_target:
  assumes "p_targetId p \<notin> fst ` set (enemyPositions s)"
  shows "projectileFrame dt p s = handleProjectileHit (p_id p) None s
    \<and> projectileFrame dt p s =
        s\<lparr>projectiles := filter (\<lambda>q. p_id q \<noteq> p_id p) (projectiles s)\<rparr>
    \<and> p_id p \<notin> p_id ` set (projectiles (projectileFrame dt p s))
    \<and> enemies (projectileFrame dt p s) = enemies s
    \<and> enemyPositions (projectileFrame dt p s) = enemyPositions s
    \<and> money (projectileFrame dt p s) = money s
    \<and> lives (projectileFrame dt p s) = lives s"
proof -
  from assms have "map_of (enemyPositions s) (p_targetId p) = None"
    by (simp add: map_of_eq_None_iff)
  then have "projectileFrame dt p s = handleProjectileHit (p_id p) None s"
    by (simp add: projectileFrame_def)
  then show ?thesis by (auto simp: handleProjectileHit_def Let_def)
qed

theorem projectileFrame_no_target_witness:
  "projectileFrame 0.1 pr1 (initGame\<lparr>enemies := [en1], enemyPositions := cache1,
      projectiles := [pr1]\<rparr>) =
   initGame\<lparr>enemies := [en1], enemyPositions := cache1, projectiles := []\<rparr>"
proof -
  let ?s = "initGame\<lparr>enemies := [en1], enemyPositions := cache1, projectiles := [pr1]\<rparr>"
  have h: "p_targetId pr1 \<notin> fst ` set (enemyPositions ?s)"
    by (simp add: cache1_def pr1_def)
  from projectileFrame_no_target [OF h, of "0.1"]
  have "projectileFrame 0.1 pr1 ?s =
      ?s\<lparr>projectiles := filter (\<lambda>q. p_id q \<noteq> p_id pr1) (projectiles ?s)\<rparr>"
    by blast
  then show ?thesis by simp
qed

section \<open>Resolving a hit\<close>

lemma byId_snoc:
  "byId (es @ [e]) ident = (if e_id e = ident then Some (length es) else byId es ident)"
  by (simp add: byId_def)

lemma byId_None: "byId es ident = None \<longleftrightarrow> ident \<notin> e_id ` set es"
  by (induction es rule: rev_induct) (auto simp: byId_snoc, simp add: byId_def)

lemma byId_Some:
  "byId es ident = Some i \<Longrightarrow> i < length es \<and> e_id (es ! i) = ident"
proof (induction es arbitrary: i rule: rev_induct)
  case Nil
  then show ?case by (simp add: byId_def)
next
  case (snoc x xs)
  then show ?case
    by (auto simp: byId_snoc nth_append split: if_splits)
qed

lemma byId_distinct:
  "distinct (map e_id es) \<Longrightarrow> i < length es \<Longrightarrow> byId es (e_id (es ! i)) = Some i"
proof (induction es arbitrary: i rule: rev_induct)
  case Nil
  then show ?case by simp
next
  case (snoc x xs)
  show ?case
  proof (cases "i < length xs")
    case True
    with snoc.prems have "e_id x \<noteq> e_id (xs ! i)" by auto
    with True snoc show ?thesis by (simp add: byId_snoc nth_append)
  next
    case False
    with snoc.prems have "i = length xs" by simp
    then show ?thesis by (simp add: byId_snoc)
  qed
qed

lemma splashOne_eq:
  "splashOne cache (h_hitPos h) (h_splash h) d e =
     (if inSplash cache h e then e\<lparr>e_hp := e_hp e - d\<rparr> else e)"
  by (simp add: splashOne_def inSplash_def split: option.splits)

lemma inSplash_hp [simp]: "inSplash cache h (e\<lparr>e_hp := v\<rparr>) = inSplash cache h e"
  by (simp add: inSplash_def)

lemma length_damaged [simp]: "length (damaged projs cache projId h ti es) = length es"
  by (simp add: damaged_def Let_def)

lemma damaged_nth:
  assumes "ti < length es" and "j < length es"
  shows "damaged projs cache projId h ti es ! j =
    (es ! j)\<lparr>e_hp := e_hp (es ! j)
        - (if j = ti then hitDamage projs projId else 0)
        - (if h_splash h \<noteq> 0 \<and> inSplash cache h (es ! j) then hitDamage projs projId else 0)\<rparr>"
  using assms by (simp add: damaged_def Let_def splashOne_eq nth_list_update)

lemma damaged_ids [simp]:
  "ti < length es \<Longrightarrow> map e_id (damaged projs cache projId h ti es) = map e_id es"
  by (rule nth_equalityI) (simp_all add: damaged_nth)

lemma handleProjectileHit_target:
  assumes "byId (enemies s) (h_targetId h) = Some ti"
  shows "handleProjectileHit projId (Some h) s =
    s\<lparr>projectiles := filter (\<lambda>p. p_id p \<noteq> projId) (projectiles s),
      enemies := filter (\<lambda>e. \<not> e_hp e \<le> 0)
        (damaged (projectiles s) (enemyPositions s) projId h ti (enemies s)),
      enemyPositions := evictDead
        (damaged (projectiles s) (enemyPositions s) projId h ti (enemies s)) (enemyPositions s),
      money := money s + 10 * real (length (filter (\<lambda>e. e_hp e \<le> 0)
        (damaged (projectiles s) (enemyPositions s) projId h ti (enemies s))))\<rparr>"
  using assms by (simp add: handleProjectileHit_def Let_def)

lemma handleProjectileHit_absent:
  assumes "h_targetId h \<notin> e_id ` set (enemies s)"
  shows "handleProjectileHit projId (Some h) s =
    s\<lparr>projectiles := filter (\<lambda>p. p_id p \<noteq> projId) (projectiles s)\<rparr>"
  using assms byId_None [of "enemies s" "h_targetId h"]
  by (simp add: handleProjectileHit_def Let_def)

lemma evictDead_map_of:
  "map_of (evictDead es c) k =
     (if k \<in> e_id ` {e \<in> set es. e_hp e \<le> 0} then None else map_of c k)"
proof (induction es arbitrary: c)
  case Nil
  then show ?case by (simp add: evictDead_def)
next
  case (Cons a es)
  have step: "evictDead (a # es) c =
      evictDead es (if e_hp a \<le> 0 then AList.delete (e_id a) c else c)"
    by (simp add: evictDead_def)
  show ?case
    unfolding step Cons.IH by (auto simp: AList.delete_conv')
qed

lemma evictDead_keys:
  "fst ` set (evictDead es c) = fst ` set c - e_id ` {e \<in> set es. e_hp e \<le> 0}"
proof -
  have "dom (map_of (evictDead es c)) = dom (map_of c) - e_id ` {e \<in> set es. e_hp e \<le> 0}"
    by (auto simp: evictDead_map_of dom_def)
  then show ?thesis by (simp add: dom_map_of_conv_image_fst)
qed

lemma evictDead_distinct:
  "distinct (map fst c) \<Longrightarrow> distinct (map fst (evictDead es c))"
proof (induction es arbitrary: c)
  case Nil
  then show ?case by (simp add: evictDead_def)
next
  case (Cons a es)
  have step: "evictDead (a # es) c =
      evictDead es (if e_hp a \<le> 0 then AList.delete (e_id a) c else c)"
    by (simp add: evictDead_def)
  from Cons show ?case unfolding step by (simp add: AList.distinct_delete)
qed

section \<open>Splash damage\<close>

text \<open>
  C2, as stated, fails. \<open>handleProjectileHit\<close> returns the enemies as they were when the
  target of the report is not in the live list (\<open>if(!target) return prev\<close>), before the
  splash loop: a report with splash radius 2.2 that names a missing target leaves a live
  enemy inside the radius with all its hit points. And the damage of the loop is the one
  looked up with the fallback 1: the hit of a cannon projectile of damage \<open>2 + (-2) = 0\<close>
  takes 2 hit points from a direct target inside the radius, not \<open>2 \<sqdot> 0\<close>.
\<close>

theorem splash_dead_target_counterexample:
  "0 < h_splash hit9
   \<and> p_dmg pr2 = 2
   \<and> en1 \<in> set (enemies (initGame\<lparr>enemies := [en1], enemyPositions := cache1,
         projectiles := [pr2]\<rparr>))
   \<and> inSplash cache1 hit9 en1
   \<and> enemies (handleProjectileHit ''p2'' (Some hit9)
        (initGame\<lparr>enemies := [en1], enemyPositions := cache1, projectiles := [pr2]\<rparr>))
      = [en1]
   \<and> p_dmg (shot ''pc'' twC ''e1'') = 0
   \<and> p_splash (shot ''pc'' twC ''e1'') = 2.2
   \<and> e_hp en1 = 3
   \<and> inSplash cache1 hit3 en1
   \<and> enemies (handleProjectileHit ''pc'' (Some hit3)
        (initGame\<lparr>enemies := [en1], enemyPositions := cache1,
           projectiles := [shot ''pc'' twC ''e1'']\<rparr>))
      = [en1\<lparr>e_hp := 1\<rparr>]"
  by (simp add: shot_def towerDamage_def towerSplash_def towerConfig_def TOWER_TYPES_def
      TOWER_cannon_def twC_def js_or_def en1_def hit9_def hit3_def pr2_def
      handleProjectileHit_def byId_def damaged_def splashOne_def inSplash_def
      hitDamage_def evictDead_def Let_def cache1_def)

text \<open>
  C2, amended. A hit report with a positive splash radius. When its target is in the
  live list, then before the dead are filtered out every enemy of the list has lost
  the looked-up damage once if it is the direct target, and once more if its cache
  entry lies within the radius of the hit position; the direct target is not exempt
  from the splash loop, so inside the radius it loses twice that damage, and the
  enemies that remain are those left with positive hit points. When its target is not
  in the live list, no enemy is damaged: enemies, cache and money stay as they were.
  The damage is the \<open>dmg\<close> of the first projectile of the list with the id of the
  report if there is one and its \<open>dmg\<close> is not 0, and 1 otherwise.
\<close>

theorem handleProjectileHit_splash:
  assumes "0 < h_splash h"
  shows "(h_targetId h \<in> e_id ` set (enemies s) \<longrightarrow>
      (\<exists>ti updated. ti < length (enemies s) \<and> e_id (enemies s ! ti) = h_targetId h
        \<and> length updated = length (enemies s)
        \<and> (\<forall>j < length (enemies s). updated ! j =
              (enemies s ! j)\<lparr>e_hp := e_hp (enemies s ! j)
                 - (if j = ti then hitDamage (projectiles s) projId else 0)
                 - (if inSplash (enemyPositions s) h (enemies s ! j)
                    then hitDamage (projectiles s) projId else 0)\<rparr>)
        \<and> (inSplash (enemyPositions s) h (enemies s ! ti) \<longrightarrow>
              e_hp (updated ! ti) = e_hp (enemies s ! ti) - 2 * hitDamage (projectiles s) projId)
        \<and> enemies (handleProjectileHit projId (Some h) s)
            = filter (\<lambda>e. \<not> e_hp e \<le> 0) updated))
    \<and> (h_targetId h \<notin> e_id ` set (enemies s) \<longrightarrow>
        enemies (handleProjectileHit projId (Some h) s) = enemies s
      \<and> enemyPositions (handleProjectileHit projId (Some h) s) = enemyPositions s
      \<and> money (handleProjectileHit projId (Some h) s) = money s)
    \<and> hitDamage (projectiles s) projId =
        (case find (\<lambda>p. p_id p = projId) (projectiles s) of
           None \<Rightarrow> 1
         | Some p \<Rightarrow> if p_dmg p = 0 then 1 else p_dmg p)"
proof (intro conjI impI)
  assume live: "h_targetId h \<in> e_id ` set (enemies s)"
  then obtain ti where ti: "byId (enemies s) (h_targetId h) = Some ti"
    using byId_None [of "enemies s" "h_targetId h"] by auto
  from byId_Some [OF ti] have lt: "ti < length (enemies s)"
    and tid: "e_id (enemies s ! ti) = h_targetId h" by simp_all
  let ?u = "damaged (projectiles s) (enemyPositions s) projId h ti (enemies s)"
  have nth: "\<forall>j < length (enemies s). ?u ! j =
          (enemies s ! j)\<lparr>e_hp := e_hp (enemies s ! j)
             - (if j = ti then hitDamage (projectiles s) projId else 0)
             - (if inSplash (enemyPositions s) h (enemies s ! j)
                then hitDamage (projectiles s) projId else 0)\<rparr>"
    using assms lt by (simp add: damaged_nth)
  have dbl: "inSplash (enemyPositions s) h (enemies s ! ti) \<longrightarrow>
          e_hp (?u ! ti) = e_hp (enemies s ! ti) - 2 * hitDamage (projectiles s) projId"
    using assms lt by (simp add: damaged_nth)
  have res: "enemies (handleProjectileHit projId (Some h) s) = filter (\<lambda>e. \<not> e_hp e \<le> 0) ?u"
    by (simp add: handleProjectileHit_target [OF ti])
  from lt tid nth dbl res
  show "\<exists>ti updated. ti < length (enemies s) \<and> e_id (enemies s ! ti) = h_targetId h
        \<and> length updated = length (enemies s)
        \<and> (\<forall>j < length (enemies s). updated ! j =
              (enemies s ! j)\<lparr>e_hp := e_hp (enemies s ! j)
                 - (if j = ti then hitDamage (projectiles s) projId else 0)
                 - (if inSplash (enemyPositions s) h (enemies s ! j)
                    then hitDamage (projectiles s) projId else 0)\<rparr>)
        \<and> (inSplash (enemyPositions s) h (enemies s ! ti) \<longrightarrow>
              e_hp (updated ! ti) = e_hp (enemies s ! ti) - 2 * hitDamage (projectiles s) projId)
        \<and> enemies (handleProjectileHit projId (Some h) s)
            = filter (\<lambda>e. \<not> e_hp e \<le> 0) updated"
    by (intro exI [of _ ti] exI [of _ ?u]) simp
next
  assume dead: "h_targetId h \<notin> e_id ` set (enemies s)"
  then show "enemies (handleProjectileHit projId (Some h) s) = enemies s"
    and "enemyPositions (handleProjectileHit projId (Some h) s) = enemyPositions s"
    and "money (handleProjectileHit projId (Some h) s) = money s"
    by (simp_all add: handleProjectileHit_absent)
next
  show "hitDamage (projectiles s) projId =
        (case find (\<lambda>p. p_id p = projId) (projectiles s) of
           None \<Rightarrow> 1
         | Some p \<Rightarrow> if p_dmg p = 0 then 1 else p_dmg p)"
    by (simp add: hitDamage_def js_or_def split: option.splits)
qed

theorem handleProjectileHit_splash_witness:
  "\<exists>updated. map e_hp updated = [1, 1, 3, 0, 1]
     \<and> enemies (handleProjectileHit ''p2'' (Some hit2) game2) =
         filter (\<lambda>e. \<not> e_hp e \<le> 0) updated"
proof -
  have h: "0 < h_splash hit2" "h_targetId hit2 \<in> e_id ` set (enemies game2)"
    by (simp_all add: hit2_def game2_def en1_def)
  have d: "hitDamage (projectiles game2) ''p2'' = 2"
    by (simp add: hitDamage_def game2_def pr2_def js_or_def)
  have ids: "map e_id (enemies game2) = [''e1'', ''e2'', ''e3'', ''e4'', ''e5'']"
    by (simp add: game2_def en1_def en2_def en3_def en4_def en5_def)
  have sp: "map (inSplash (enemyPositions game2) hit2) (enemies game2)
      = [True, True, False, True, False]"
    by (simp add: inSplash_def game2_def cache2_def hit2_def en1_def en2_def en3_def
        en4_def en5_def)
  have hp: "map e_hp (enemies game2) = [5, 3, 3, 2, 1]"
    by (simp add: game2_def en1_def en2_def en3_def en4_def en5_def)
  from handleProjectileHit_splash [OF h(1), of game2 "''p2''"] h(2) obtain ti updated where
    u: "ti < length (enemies game2)" "e_id (enemies game2 ! ti) = h_targetId hit2"
      "length updated = length (enemies game2)"
      "\<forall>j < length (enemies game2). updated ! j =
          (enemies game2 ! j)\<lparr>e_hp := e_hp (enemies game2 ! j)
             - (if j = ti then hitDamage (projectiles game2) ''p2'' else 0)
             - (if inSplash (enemyPositions game2) hit2 (enemies game2 ! j)
                then hitDamage (projectiles game2) ''p2'' else 0)\<rparr>"
      "enemies (handleProjectileHit ''p2'' (Some hit2) game2) =
         filter (\<lambda>e. \<not> e_hp e \<le> 0) updated"
    by blast
  have len: "length (enemies game2) = 5" by (simp add: game2_def)
  have "\<forall>k < 5. e_id (enemies game2 ! k) = ''e1'' \<longrightarrow> k = 0"
    by (auto simp: game2_def en1_def en2_def en3_def en4_def en5_def numeral_eq_Suc less_Suc_eq)
  with u(1,2) have ti: "ti = 0" by (simp add: hit2_def len)
  have "map e_hp updated = [1, 1, 3, 0, 1]"
  proof (rule nth_equalityI)
    show "length (map e_hp updated) = length [1, 1, 3, 0, 1 :: real]"
      using u(3) len by simp
  next
    fix j assume "j < length (map e_hp updated)"
    then have j: "j < 5" using u(3) len by simp
    then have "j = 0 \<or> j = 1 \<or> j = 2 \<or> j = 3 \<or> j = 4" by arith
    moreover have "e_hp (updated ! j) = e_hp (enemies game2 ! j)
             - (if j = ti then 2 else 0)
             - (if map (inSplash (enemyPositions game2) hit2) (enemies game2) ! j then 2 else 0)"
      using u(4) j len d by simp
    moreover have "\<And>j. j < 5 \<Longrightarrow> e_hp (enemies game2 ! j) = map e_hp (enemies game2) ! j"
      using len by simp
    ultimately show "map e_hp updated ! j = [1, 1, 3, 0, 1] ! j"
      using j u(3) len unfolding sp hp ti by auto
  qed
  with u(5) show ?thesis by (intro exI [of _ updated] conjI)
qed

section \<open>The damage of a hit\<close>

lemma towerConfig_dmg: "c_dmg (towerConfig tw) \<noteq> 0"
  by (simp add: towerConfig_def TOWER_TYPES_def TOWER_basic_def TOWER_fast_def
      TOWER_sniper_def TOWER_cannon_def)

lemma towerDamage_eq: "towerDamage tw = c_dmg (towerConfig tw) + t_dmgBonus tw"
  by (simp add: towerDamage_def js_or_def towerConfig_dmg)

lemma find_distinct:
  assumes "distinct (map f xs)" and "x \<in> set xs"
  shows "find (\<lambda>y. f y = f x) xs = Some x"
  using assms by (induction xs) auto

lemma hitDamage_member:
  assumes "distinct (map p_id projs)" and "p \<in> set projs" and "p_dmg p \<noteq> 0"
  shows "hitDamage projs (p_id p) = p_dmg p"
  using find_distinct [OF assms(1,2)] assms(3) by (simp add: hitDamage_def js_or_def)

text \<open>
  C1, as stated, fails. The hit report carries no damage; \<open>handleProjectileHit\<close> looks
  the damage up in the projectile list by the id of the report and falls back to 1. A
  basic tower with damage bonus \<open>-1\<close> spawns a projectile of damage \<open>1 + (-1) = 0\<close>, and
  its hit takes 1 hit point, not 0; and the report of a projectile of damage 5 that is
  resolved against a list without that projectile takes 1 hit point, not 5.
\<close>

theorem hit_damage_lookup_counterexample:
  "p_dmg (shot ''pz'' twZ ''e1'') = c_dmg TOWER_basic + t_dmgBonus twZ
   \<and> p_dmg (shot ''pz'' twZ ''e1'') = 0
   \<and> e_hp en1 = 3
   \<and> enemies (handleProjectileHit ''pz'' (Some hit1)
        (initGame\<lparr>enemies := [en1], enemyPositions := cache1,
           projectiles := [shot ''pz'' twZ ''e1'']\<rparr>)) = [en1\<lparr>e_hp := 2\<rparr>]
   \<and> p_dmg pr1 = 5
   \<and> enemies (handleProjectileHit (p_id pr1) (Some hit1)
        (initGame\<lparr>enemies := [en1], enemyPositions := cache1, projectiles := []\<rparr>))
      = [en1\<lparr>e_hp := 2\<rparr>]"
  by (simp add: shot_def towerDamage_def towerConfig_def TOWER_TYPES_def TOWER_basic_def
      twZ_def js_or_def en1_def hit1_def pr1_def handleProjectileHit_def byId_def damaged_def
      hitDamage_def evictDead_def Let_def cache1_def)

text \<open>
  C1, amended. For a hit report whose target is in the live set, the amount \<open>d\<close> taken
  from the direct target by the direct hit is looked up when the report is resolved: it
  is the \<open>dmg\<close> of the first projectile of the list that has the id of the report if
  there is one and its \<open>dmg\<close> is not 0, and the fallback 1 otherwise. For a projectile
  that is in the list under an id of its own with a \<open>dmg\<close> other than 0 this is its
  own \<open>dmg\<close>, which a tower fixes at the spawn as base damage plus damage bonus.
\<close>

theorem handleProjectileHit_direct_damage:
  assumes "h_targetId h \<in> e_id ` set (enemies s)"
  shows "\<exists>ti updated d. ti < length (enemies s) \<and> e_id (enemies s ! ti) = h_targetId h
    \<and> d = (case find (\<lambda>p. p_id p = projId) (projectiles s) of
             None \<Rightarrow> 1
           | Some p \<Rightarrow> if p_dmg p = 0 then 1 else p_dmg p)
    \<and> length updated = length (enemies s)
    \<and> updated ! ti = (enemies s ! ti)\<lparr>e_hp := e_hp (enemies s ! ti) - d
         - (if h_splash h \<noteq> 0 \<and> inSplash (enemyPositions s) h (enemies s ! ti) then d else 0)\<rparr>
    \<and> enemies (handleProjectileHit projId (Some h) s) = filter (\<lambda>e. \<not> e_hp e \<le> 0) updated
    \<and> (\<forall>p \<in> set (projectiles s).
          distinct (map p_id (projectiles s)) \<and> p_id p = projId \<and> p_dmg p \<noteq> 0 \<longrightarrow> d = p_dmg p)
    \<and> (\<forall>newId tw targetId. p_dmg (shot newId tw targetId)
          = c_dmg (towerConfig tw) + t_dmgBonus tw)"
proof -
  from assms obtain ti where ti: "byId (enemies s) (h_targetId h) = Some ti"
    using byId_None [of "enemies s" "h_targetId h"] by auto
  from byId_Some [OF ti] have lt: "ti < length (enemies s)"
    and tid: "e_id (enemies s ! ti) = h_targetId h" by simp_all
  let ?u = "damaged (projectiles s) (enemyPositions s) projId h ti (enemies s)"
  let ?d = "hitDamage (projectiles s) projId"
  have d: "?d = (case find (\<lambda>p. p_id p = projId) (projectiles s) of
             None \<Rightarrow> 1
           | Some p \<Rightarrow> if p_dmg p = 0 then 1 else p_dmg p)"
    by (simp add: hitDamage_def js_or_def split: option.splits)
  have nth: "?u ! ti = (enemies s ! ti)\<lparr>e_hp := e_hp (enemies s ! ti) - ?d
         - (if h_splash h \<noteq> 0 \<and> inSplash (enemyPositions s) h (enemies s ! ti) then ?d else 0)\<rparr>"
    using lt by (simp add: damaged_nth)
  have res: "enemies (handleProjectileHit projId (Some h) s) = filter (\<lambda>e. \<not> e_hp e \<le> 0) ?u"
    by (simp add: handleProjectileHit_target [OF ti])
  have mem: "\<forall>p \<in> set (projectiles s).
      distinct (map p_id (projectiles s)) \<and> p_id p = projId \<and> p_dmg p \<noteq> 0 \<longrightarrow> ?d = p_dmg p"
    using hitDamage_member [of "projectiles s"] by blast
  have sh: "\<forall>newId tw targetId. p_dmg (shot newId tw targetId)
          = c_dmg (towerConfig tw) + t_dmgBonus tw"
    by (simp add: shot_def towerDamage_eq)
  from lt tid d nth res mem sh show ?thesis
    by (intro exI [of _ ti] exI [of _ ?u] exI [of _ ?d]) simp
qed

theorem handleProjectileHit_direct_damage_witness:
  "enemies (handleProjectileHit ''p5'' (Some hit1) game5) = [en1\<lparr>e_hp := 3\<rparr>]"
proof -
  have h: "h_targetId hit1 \<in> e_id ` set (enemies game5)"
    by (simp add: hit1_def game5_def en1_def)
  from handleProjectileHit_direct_damage [OF h, of "''p5''"] obtain ti updated d where
    u: "ti < length (enemies game5)"
      "d = (case find (\<lambda>p. p_id p = ''p5'') (projectiles game5) of
             None \<Rightarrow> 1
           | Some p \<Rightarrow> if p_dmg p = 0 then 1 else p_dmg p)"
      "length updated = length (enemies game5)"
      "updated ! ti = (enemies game5 ! ti)\<lparr>e_hp := e_hp (enemies game5 ! ti) - d
         - (if h_splash hit1 \<noteq> 0 \<and> inSplash (enemyPositions game5) hit1 (enemies game5 ! ti)
            then d else 0)\<rparr>"
      "enemies (handleProjectileHit ''p5'' (Some hit1) game5) =
         filter (\<lambda>e. \<not> e_hp e \<le> 0) updated"
    by blast
  from u(1) have ti: "ti = 0" by (simp add: game5_def)
  from u(2) have d: "d = 5" by (simp add: game5_def pr5_def)
  from u(3) obtain x where x: "updated = [x]"
    by (cases updated) (auto simp: game5_def)
  with u(4) ti d have "x = en1\<lparr>e_hp := 3\<rparr>"
    by (simp add: game5_def hit1_def en1_def)
  with x u(5) show ?thesis by simp
qed

section \<open>Rewards\<close>

lemma handleProjectileHit_money:
  "money (handleProjectileHit projId hi s) =
     money s + 10 * real (length (enemies s) - length (enemies (handleProjectileHit projId hi s)))
   \<and> length (enemies (handleProjectileHit projId hi s)) \<le> length (enemies s)"
proof (cases hi)
  case None
  then show ?thesis by (simp add: handleProjectileHit_def)
next
  case (Some h)
  show ?thesis
  proof (cases "byId (enemies s) (h_targetId h)")
    case None
    with Some show ?thesis by (simp add: handleProjectileHit_def)
  next
    case (Some ti)
    let ?u = "damaged (projectiles s) (enemyPositions s) projId h ti (enemies s)"
    have "length (filter (\<lambda>e. e_hp e \<le> 0) ?u) + length (filter (\<lambda>e. \<not> e_hp e \<le> 0) ?u)
        = length (enemies s)"
      using sum_length_filter_compl [of "\<lambda>e. e_hp e \<le> 0" ?u] by simp
    then show ?thesis
      using \<open>hi = Some h\<close> by (simp add: handleProjectileHit_target [OF Some])
  qed
qed

lemma handleProjectileHit_ids:
  "e_id ` set (enemies (handleProjectileHit projId hi s)) \<subseteq> e_id ` set (enemies s)"
proof (cases hi)
  case None
  then show ?thesis by (simp add: handleProjectileHit_def)
next
  case (Some h)
  show ?thesis
  proof (cases "byId (enemies s) (h_targetId h)")
    case None
    with Some show ?thesis by (simp add: handleProjectileHit_def)
  next
    case (Some ti)
    let ?u = "damaged (projectiles s) (enemyPositions s) projId h ti (enemies s)"
    from byId_Some [OF Some] have "map e_id ?u = map e_id (enemies s)" by simp
    then have "e_id ` set ?u = e_id ` set (enemies s)" by (metis set_map)
    then show ?thesis
      using \<open>hi = Some h\<close> by (auto simp: handleProjectileHit_target [OF Some])
  qed
qed

lemma handleProjectileHit_distinct:
  assumes "distinct (map e_id (enemies s))"
  shows "distinct (map e_id (enemies (handleProjectileHit projId hi s)))"
proof (cases hi)
  case None
  with assms show ?thesis by (simp add: handleProjectileHit_def)
next
  case (Some h)
  show ?thesis
  proof (cases "byId (enemies s) (h_targetId h)")
    case None
    with Some assms show ?thesis by (simp add: handleProjectileHit_def)
  next
    case (Some ti)
    let ?u = "damaged (projectiles s) (enemyPositions s) projId h ti (enemies s)"
    from byId_Some [OF Some] have "map e_id ?u = map e_id (enemies s)" by simp
    with assms have "distinct (map e_id ?u)" by simp
    then show ?thesis
      using \<open>hi = Some h\<close> by (simp add: handleProjectileHit_target [OF Some] distinct_map_filter)
  qed
qed

lemma resolveReports_money:
  "money (resolveReports rs s) =
     money s + 10 * real (length (enemies s) - length (enemies (resolveReports rs s)))
   \<and> length (enemies (resolveReports rs s)) \<le> length (enemies s)"
proof (induction rs arbitrary: s)
  case Nil
  then show ?case by (simp add: resolveReports_def)
next
  case (Cons r rs)
  let ?s1 = "handleProjectileHit (fst r) (snd r) s"
  have step: "resolveReports (r # rs) s = resolveReports rs ?s1"
    by (simp add: resolveReports_def)
  from handleProjectileHit_money [of "fst r" "snd r" s] Cons.IH [of ?s1]
  show ?case unfolding step by (simp add: of_nat_diff)
qed

lemma resolveReports_ids:
  "e_id ` set (enemies (resolveReports rs s)) \<subseteq> e_id ` set (enemies s)"
proof (induction rs arbitrary: s)
  case Nil
  then show ?case by (simp add: resolveReports_def)
next
  case (Cons r rs)
  let ?s1 = "handleProjectileHit (fst r) (snd r) s"
  have step: "resolveReports (r # rs) s = resolveReports rs ?s1"
    by (simp add: resolveReports_def)
  from handleProjectileHit_ids [of "fst r" "snd r" s] Cons.IH [of ?s1]
  show ?case unfolding step by blast
qed

lemma resolveReports_distinct:
  "distinct (map e_id (enemies s)) \<Longrightarrow> distinct (map e_id (enemies (resolveReports rs s)))"
proof (induction rs arbitrary: s)
  case Nil
  then show ?case by (simp add: resolveReports_def)
next
  case (Cons r rs)
  let ?s1 = "handleProjectileHit (fst r) (snd r) s"
  have step: "resolveReports (r # rs) s = resolveReports rs ?s1"
    by (simp add: resolveReports_def)
  from Cons.prems have "distinct (map e_id (enemies ?s1))"
    by (rule handleProjectileHit_distinct)
  from Cons.IH [OF this] show ?case unfolding step .
qed

text \<open>
  C4. Over the reports of one pass, whatever they are and however many of them name
  the same enemy, the money grows by 10 for each enemy that leaves the live list, that
  is for each id that disappears when the ids are distinct; no enemy is added. An enemy
  that an earlier report has removed is not found by a later report, which then changes
  neither the enemies nor the cache nor the money.
\<close>

theorem kill_reward_once:
  "money (resolveReports rs s) =
      money s + 10 * real (length (enemies s) - length (enemies (resolveReports rs s)))
    \<and> length (enemies (resolveReports rs s)) \<le> length (enemies s)
    \<and> e_id ` set (enemies (resolveReports rs s)) \<subseteq> e_id ` set (enemies s)
    \<and> (distinct (map e_id (enemies s)) \<longrightarrow>
          money (resolveReports rs s) = money s
            + 10 * real (card (e_id ` set (enemies s) - e_id ` set (enemies (resolveReports rs s)))))
    \<and> (\<forall>projId h. h_targetId h \<notin> e_id ` set (enemies (resolveReports rs s)) \<longrightarrow>
          enemies (handleProjectileHit projId (Some h) (resolveReports rs s))
            = enemies (resolveReports rs s)
        \<and> enemyPositions (handleProjectileHit projId (Some h) (resolveReports rs s))
            = enemyPositions (resolveReports rs s)
        \<and> money (handleProjectileHit projId (Some h) (resolveReports rs s))
            = money (resolveReports rs s))"
proof -
  let ?s' = "resolveReports rs s"
  have sub: "e_id ` set (enemies ?s') \<subseteq> e_id ` set (enemies s)"
    by (rule resolveReports_ids)
  have m: "money ?s' = money s + 10 * real (length (enemies s) - length (enemies ?s'))"
    and le: "length (enemies ?s') \<le> length (enemies s)"
    using resolveReports_money [of rs s] by simp_all
  have cd: "money ?s' =
      money s + 10 * real (card (e_id ` set (enemies s) - e_id ` set (enemies ?s')))"
    if dist: "distinct (map e_id (enemies s))"
  proof -
    have d': "distinct (map e_id (enemies ?s'))"
      using dist by (rule resolveReports_distinct)
    have c1: "card (e_id ` set (enemies s)) = length (enemies s)"
      using dist distinct_card [of "map e_id (enemies s)"] by simp
    have c2: "card (e_id ` set (enemies ?s')) = length (enemies ?s')"
      using d' distinct_card [of "map e_id (enemies ?s')"] by simp
    have "card (e_id ` set (enemies s) - e_id ` set (enemies ?s'))
        = card (e_id ` set (enemies s)) - card (e_id ` set (enemies ?s'))"
      using sub by (simp add: card_Diff_subset)
    with c1 c2 m show ?thesis by simp
  qed
  have ab: "\<forall>projId h. h_targetId h \<notin> e_id ` set (enemies ?s') \<longrightarrow>
          enemies (handleProjectileHit projId (Some h) ?s') = enemies ?s'
        \<and> enemyPositions (handleProjectileHit projId (Some h) ?s') = enemyPositions ?s'
        \<and> money (handleProjectileHit projId (Some h) ?s') = money ?s'"
    by (simp add: handleProjectileHit_absent)
  from m le sub cd ab show ?thesis by blast
qed

theorem kill_reward_once_witness:
  "enemies (resolveReports [(''pa'', Some hit4), (''pb'', Some hit4)] game4) = [en1]
   \<and> money game4 = 100
   \<and> money (resolveReports [(''pa'', Some hit4), (''pb'', Some hit4)] game4) = 110"
proof -
  have e: "enemies (resolveReports [(''pa'', Some hit4), (''pb'', Some hit4)] game4) = [en1]"
    by (simp add: resolveReports_def handleProjectileHit_def byId_def damaged_def
        hitDamage_def evictDead_def Let_def js_or_def game4_def hit4_def en1_def en4_def
        pr2_def cache2_def initGame_def)
  have d: "distinct (map e_id (enemies game4))"
    by (simp add: game4_def en1_def en4_def)
  have m0: "money game4 = 100" by (simp add: game4_def initGame_def)
  have ids: "e_id ` set (enemies game4) - e_id ` set [en1] = {''e4''}"
    by (auto simp: game4_def en1_def en4_def)
  from kill_reward_once [of "[(''pa'', Some hit4), (''pb'', Some hit4)]" game4] d
  have "money (resolveReports [(''pa'', Some hit4), (''pb'', Some hit4)] game4) = money game4
      + 10 * real (card (e_id ` set (enemies game4)
          - e_id ` set (enemies (resolveReports [(''pa'', Some hit4), (''pb'', Some hit4)] game4))))"
    by blast
  with e m0 ids show ?thesis by simp
qed

section \<open>The frame of an enemy\<close>

lemma baseSpeed_pos: "0 < baseSpeed ty"
  by (simp add: baseSpeed_def)

lemma progress_nonneg:
  "0 \<le> e_progress e \<Longrightarrow> 0 \<le> dt \<Longrightarrow> 0 \<le> e_progress e + baseSpeed (e_type e) * dt"
  using baseSpeed_pos [of "e_type e"] by simp

lemma enemyFrame_eq:
  assumes "0 \<le> e_progress e" and "0 \<le> dt"
  shows "enemyFrame dt e s =
    (let p = e_progress e + baseSpeed (e_type e) * dt
     in if 4 \<le> \<lfloor>p\<rfloor>
        then Inr (s\<lparr>enemies := filter (\<lambda>x. e_id x \<noteq> e_id e) (enemies s),
                    enemyPositions := AList.delete (e_id e) (enemyPositions s),
                    lives := lives s - 1\<rparr>)
        else Inr (s\<lparr>enemies := setProgress (e_id e) p (enemies s),
                    enemyPositions := AList.update (e_id e)
                      \<lparr>i_pos = lerpVec (PATH ! nat \<lfloor>p\<rfloor>) (PATH ! (nat \<lfloor>p\<rfloor> + 1))
                                (p - of_int \<lfloor>p\<rfloor>),
                        i_hp = e_hp e\<rparr> (enemyPositions s)\<rparr>))"
proof -
  let ?p = "e_progress e + baseSpeed (e_type e) * dt"
  from progress_nonneg [OF assms] have f: "0 \<le> \<lfloor>?p\<rfloor>" by simp
  then have n: "nat (\<lfloor>?p\<rfloor> + 1) = nat \<lfloor>?p\<rfloor> + 1" "\<not> \<lfloor>?p\<rfloor> < 0" by linarith+
  have l: "int (length PATH) - 1 = 4" by (simp add: PATH_def)
  show ?thesis
    unfolding enemyFrame_def Let_def l handleEnemyReachEnd_def
    using n by (simp add: AList.delete_idem)
qed

lemma setProgress_at:
  assumes "distinct (map e_id es)" and "i < length es"
  shows "setProgress (e_id (es ! i)) p es = es[i := (es ! i)\<lparr>e_progress := p\<rparr>]"
  using assms
proof (induction es arbitrary: i)
  case Nil
  then show ?case by simp
next
  case (Cons a es)
  show ?case
  proof (cases i)
    case 0
    from Cons.prems have "e_id a \<notin> e_id ` set es" by simp
    then have "\<And>x. x \<in> set es \<Longrightarrow> e_id x \<noteq> e_id a" by (metis imageI)
    then have "map (\<lambda>x. if e_id x = e_id a then x\<lparr>e_progress := p\<rparr> else x) es = es"
      by (simp add: map_idI)
    with 0 show ?thesis by (simp add: setProgress_def)
  next
    case (Suc j)
    with Cons.prems have "e_id a \<noteq> e_id (es ! j)" by auto
    with Suc Cons.prems Cons.IH [of j] show ?thesis by (simp add: setProgress_def)
  qed
qed

text \<open>
  C6. One frame of a live enemy with \<open>dt \<ge> 0\<close> (ids distinct, progress not
  negative, as it is from the spawn on). The speed is 1.2 for \<open>fast\<close>, 0.45 for
  \<open>cannon\<close> and 0.7 for any other kind, and the new progress is the old one plus
  speed times \<open>dt\<close>. When its floor has reached the number of segments of the path,
  the enemy leaves the live list, its cache entry is deleted, the lives drop by one,
  and from then on no pass of hit reports has an enemy of that id to damage: a report
  that names it changes neither the enemies nor the money. Otherwise the enemy keeps
  its place with the new progress and its cache entry holds the interpolation between
  the waypoints \<open>floor p\<close> and \<open>floor p + 1\<close> at the fraction \<open>p - floor p\<close>; every
  other entry and the lives are untouched.
\<close>

theorem enemyFrame_step:
  assumes "distinct (map e_id (enemies s))" and "i < length (enemies s)"
    and "enemies s ! i = e" and "0 \<le> e_progress e" and "0 \<le> dt"
  shows "baseSpeed (e_type e) =
      (if e_type e = ''fast'' then 1.2 else if e_type e = ''cannon'' then 0.45 else 0.7)
    \<and> (\<exists>s'. enemyFrame dt e s = Inr s'
        \<and> (if int (length PATH) - 1 \<le> \<lfloor>e_progress e + baseSpeed (e_type e) * dt\<rfloor>
           then enemies s' = filter (\<lambda>x. e_id x \<noteq> e_id e) (enemies s)
              \<and> set (enemies s') = set (enemies s) - {e}
              \<and> e_id e \<notin> e_id ` set (enemies s')
              \<and> enemyPositions s' = AList.delete (e_id e) (enemyPositions s)
              \<and> e_id e \<notin> fst ` set (enemyPositions s')
              \<and> lives s' = lives s - 1
              \<and> money s' = money s
              \<and> (\<forall>rs. e_id e \<notin> e_id ` set (enemies (resolveReports rs s')))
              \<and> (\<forall>projId h. h_targetId h = e_id e \<longrightarrow>
                    enemies (handleProjectileHit projId (Some h) s') = enemies s'
                  \<and> money (handleProjectileHit projId (Some h) s') = money s')
           else enemies s' = (enemies s)[i := e\<lparr>e_progress :=
                    e_progress e + baseSpeed (e_type e) * dt\<rparr>]
              \<and> map_of (enemyPositions s') (e_id e) = Some
                  \<lparr>i_pos = lerpVec
                     (PATH ! nat \<lfloor>e_progress e + baseSpeed (e_type e) * dt\<rfloor>)
                     (PATH ! (nat \<lfloor>e_progress e + baseSpeed (e_type e) * dt\<rfloor> + 1))
                     (e_progress e + baseSpeed (e_type e) * dt
                       - of_int \<lfloor>e_progress e + baseSpeed (e_type e) * dt\<rfloor>),
                    i_hp = e_hp e\<rparr>
              \<and> (\<forall>k. k \<noteq> e_id e \<longrightarrow>
                    map_of (enemyPositions s') k = map_of (enemyPositions s) k)
              \<and> lives s' = lives s
              \<and> money s' = money s))"
proof -
  let ?p = "e_progress e + baseSpeed (e_type e) * dt"
  have l: "int (length PATH) - 1 = 4" by (simp add: PATH_def)
  note eq = enemyFrame_eq [OF assms(4,5), of s, unfolded Let_def]
  have sp: "baseSpeed (e_type e) =
      (if e_type e = ''fast'' then 1.2 else if e_type e = ''cannon'' then 0.45 else 0.7)"
    by (simp add: baseSpeed_def)
  show ?thesis
  proof (cases "4 \<le> \<lfloor>?p\<rfloor>")
    case True
    let ?s' = "s\<lparr>enemies := filter (\<lambda>x. e_id x \<noteq> e_id e) (enemies s),
                    enemyPositions := AList.delete (e_id e) (enemyPositions s),
                    lives := lives s - 1\<rparr>"
    from True eq have r: "enemyFrame dt e s = Inr ?s'" by simp
    have gone: "e_id e \<notin> e_id ` set (enemies ?s')" by auto
    have "\<And>x. x \<in> set (enemies s) \<Longrightarrow> e_id x = e_id e \<Longrightarrow> x = e"
      using assms(1-3) by (metis distinct_map inj_on_def nth_mem)
    moreover have "e \<in> set (enemies s)" using assms(2,3) by auto
    ultimately have st: "set (enemies ?s') = set (enemies s) - {e}" by auto
    have nk: "e_id e \<notin> fst ` set (enemyPositions ?s')"
      by (simp add: AList.delete_notin_dom)
    have rs: "\<forall>rs. e_id e \<notin> e_id ` set (enemies (resolveReports rs ?s'))"
      using gone resolveReports_ids by blast
    have hp: "\<forall>projId h. h_targetId h = e_id e \<longrightarrow>
                    enemies (handleProjectileHit projId (Some h) ?s') = enemies ?s'
                  \<and> money (handleProjectileHit projId (Some h) ?s') = money ?s'"
      using gone by (simp add: handleProjectileHit_absent)
    from True l r st gone nk rs hp sp show ?thesis
      by (intro conjI exI [of _ ?s']) simp_all
  next
    case False
    let ?s' = "s\<lparr>enemies := setProgress (e_id e) ?p (enemies s),
                    enemyPositions := AList.update (e_id e)
                      \<lparr>i_pos = lerpVec (PATH ! nat \<lfloor>?p\<rfloor>) (PATH ! (nat \<lfloor>?p\<rfloor> + 1))
                                (?p - of_int \<lfloor>?p\<rfloor>),
                        i_hp = e_hp e\<rparr> (enemyPositions s)\<rparr>"
    from False eq have r: "enemyFrame dt e s = Inr ?s'" by simp
    have en: "enemies ?s' = (enemies s)[i := e\<lparr>e_progress := ?p\<rparr>]"
      using setProgress_at [OF assms(1,2), of ?p] assms(3) by simp
    from False l r en sp show ?thesis
      by (intro conjI exI [of _ ?s']) (simp_all add: AList.update_conv')
  qed
qed

theorem enemyFrame_step_witness:
  "(\<exists>s'. enemyFrame 0.5 (en2\<lparr>e_progress := 3.5\<rparr>) game6 = Inr s'
      \<and> enemies s' = [en1] \<and> ''e2'' \<notin> fst ` set (enemyPositions s') \<and> lives s' = 9)
   \<and> (\<exists>s'. enemyFrame 1 en1 game6 = Inr s'
      \<and> enemies s' = [en1\<lparr>e_progress := 1.2\<rparr>, en2\<lparr>e_progress := 3.5\<rparr>]
      \<and> map_of (enemyPositions s') ''e1'' = Some \<lparr>i_pos = (-3.2, 0, 3.2), i_hp = 3\<rparr>
      \<and> lives s' = 10)"
proof -
  have d: "distinct (map e_id (enemies game6))"
    by (simp add: game6_def en1_def en2_def)
  have a: "1 < length (enemies game6)" "enemies game6 ! 1 = en2\<lparr>e_progress := 3.5\<rparr>"
    "0 \<le> e_progress (en2\<lparr>e_progress := 3.5\<rparr>)" "(0::real) \<le> 0.5"
    by (simp_all add: game6_def)
  have b: "0 < length (enemies game6)" "enemies game6 ! 0 = en1"
    "0 \<le> e_progress en1" "(0::real) \<le> 1"
    by (simp_all add: game6_def en1_def)
  have pa: "e_progress (en2\<lparr>e_progress := 3.5\<rparr>)
      + baseSpeed (e_type (en2\<lparr>e_progress := 3.5\<rparr>)) * 0.5 = 4.1"
    by (simp add: en2_def baseSpeed_def)
  have pb: "e_progress en1 + baseSpeed (e_type en1) * 1 = 1.2"
    by (simp add: en1_def baseSpeed_def)
  have l: "int (length PATH) - 1 = 4" by (simp add: PATH_def)
  have fa: "\<lfloor>4.1::real\<rfloor> = 4" and fb: "\<lfloor>1.2::real\<rfloor> = 1" by simp_all
  have ida: "e_id (en2\<lparr>e_progress := 3.5\<rparr>) = ''e2''" by (simp add: en2_def)
  have fl: "filter (\<lambda>x. e_id x \<noteq> ''e2'') (enemies game6) = [en1]"
    by (simp add: game6_def en1_def en2_def)
  have lv: "lives game6 = 10" by (simp add: game6_def initGame_def)
  have lp: "lerpVec (PATH ! 1) (PATH ! 2) (1.2 - 1) = (-3.2, 0, 3.2)"
    by (simp add: PATH_def lerp_def)
  have hb: "e_hp en1 = 3" "e_id en1 = ''e1''" by (simp_all add: en1_def)
  have x: "\<exists>s'. enemyFrame 0.5 (en2\<lparr>e_progress := 3.5\<rparr>) game6 = Inr s'
      \<and> enemies s' = [en1] \<and> ''e2'' \<notin> fst ` set (enemyPositions s') \<and> lives s' = 9"
    using enemyFrame_step [OF d a(1,2,3,4)] unfolding pa l fa ida fl lv by auto
  have y: "\<exists>s'. enemyFrame 1 en1 game6 = Inr s'
      \<and> enemies s' = [en1\<lparr>e_progress := 1.2\<rparr>, en2\<lparr>e_progress := 3.5\<rparr>]
      \<and> map_of (enemyPositions s') ''e1'' = Some \<lparr>i_pos = (-3.2, 0, 3.2), i_hp = 3\<rparr>
      \<and> lives s' = 10"
    using enemyFrame_step [OF d b(1,2,3,4)] lp unfolding pb l fb hb lv
    by (auto simp: game6_def numeral_2_eq_2)
  from x y show ?thesis by blast
qed

section \<open>The position cache and the live enemies\<close>

lemma cacheInv_same:
  "enemies s' = enemies s \<Longrightarrow> enemyPositions s' = enemyPositions s \<Longrightarrow>
     cacheInv s' = cacheInv s"
  by (simp add: cacheInv_def)

lemma towerFrame_same:
  "enemies (towerFrame dt newId tw s) = enemies s"
  "enemyPositions (towerFrame dt newId tw s) = enemyPositions s"
  by (simp_all add: towerFrame_def Let_def setLastShot_def spawnProjectile_def
      split: option.split prod.split)

lemma damaged_progress:
  "ti < length es \<Longrightarrow> map e_progress (damaged projs cache projId h ti es) = map e_progress es"
  by (rule nth_equalityI) (simp_all add: damaged_nth)

lemma handleProjectileHit_onPath:
  assumes "\<forall>e \<in> set (enemies s). onPath e"
  shows "\<forall>e \<in> set (enemies (handleProjectileHit projId hi s)). onPath e"
proof (cases hi)
  case None
  with assms show ?thesis by (simp add: handleProjectileHit_def)
next
  case (Some h)
  show ?thesis
  proof (cases "byId (enemies s) (h_targetId h)")
    case None
    with Some assms show ?thesis by (simp add: handleProjectileHit_def)
  next
    case (Some ti)
    let ?u = "damaged (projectiles s) (enemyPositions s) projId h ti (enemies s)"
    from byId_Some [OF Some] have "map e_progress ?u = map e_progress (enemies s)"
      by (simp add: damaged_progress)
    then have "set (map e_progress ?u) = set (map e_progress (enemies s))" by simp
    then have im: "e_progress ` set ?u = e_progress ` set (enemies s)" by simp
    have "\<forall>e \<in> set ?u. onPath e"
    proof
      fix e assume "e \<in> set ?u"
      then have "e_progress e \<in> e_progress ` set (enemies s)" using im by blast
      then obtain y where "y \<in> set (enemies s)" "e_progress e = e_progress y" by blast
      with assms show "onPath e" by (simp add: onPath_def)
    qed
    then show ?thesis
      using \<open>hi = Some h\<close> by (simp add: handleProjectileHit_target [OF Some])
  qed
qed

lemma evictDead_keys_alive:
  assumes "fst ` set c \<subseteq> e_id ` set u"
  shows "fst ` set (evictDead u c) \<subseteq> e_id ` set (filter (\<lambda>e. \<not> e_hp e \<le> 0) u)"
proof
  fix k assume "k \<in> fst ` set (evictDead u c)"
  then have k: "k \<in> fst ` set c" "k \<notin> e_id ` {e \<in> set u. e_hp e \<le> 0}"
    unfolding evictDead_keys by simp_all
  from assms k(1) have "k \<in> e_id ` set u" by (rule subsetD)
  then obtain x where x: "x \<in> set u" "e_id x = k" by (auto simp: image_iff)
  have "\<not> e_hp x \<le> 0"
  proof
    assume "e_hp x \<le> 0"
    with x have "k \<in> e_id ` {e \<in> set u. e_hp e \<le> 0}" by (auto simp: image_iff)
    with k(2) show False by simp
  qed
  with x show "k \<in> e_id ` set (filter (\<lambda>e. \<not> e_hp e \<le> 0) u)" by (auto simp: image_iff)
qed

lemma handleProjectileHit_keys:
  assumes "fst ` set (enemyPositions s) \<subseteq> e_id ` set (enemies s)"
  shows "fst ` set (enemyPositions (handleProjectileHit projId hi s))
     \<subseteq> e_id ` set (enemies (handleProjectileHit projId hi s))"
proof (cases hi)
  case None
  with assms show ?thesis by (simp add: handleProjectileHit_def)
next
  case (Some h)
  show ?thesis
  proof (cases "byId (enemies s) (h_targetId h)")
    case None
    with Some assms show ?thesis by (simp add: handleProjectileHit_def)
  next
    case (Some ti)
    define u where "u = damaged (projectiles s) (enemyPositions s) projId h ti (enemies s)"
    from byId_Some [OF Some] have "map e_id u = map e_id (enemies s)" by (simp add: u_def)
    then have "set (map e_id u) = set (map e_id (enemies s))" by simp
    then have ids: "e_id ` set u = e_id ` set (enemies s)" by simp
    with assms have "fst ` set (enemyPositions s) \<subseteq> e_id ` set u" by simp
    then have "fst ` set (evictDead u (enemyPositions s))
        \<subseteq> e_id ` set (filter (\<lambda>e. \<not> e_hp e \<le> 0) u)"
      by (rule evictDead_keys_alive)
    then show ?thesis
      unfolding \<open>hi = Some h\<close> handleProjectileHit_target [OF Some] u_def by simp
  qed
qed

lemma handleProjectileHit_cacheInv:
  assumes "cacheInv s"
  shows "cacheInv (handleProjectileHit projId hi s)"
proof -
  from assms have a: "distinct (map e_id (enemies s))"
    "fst ` set (enemyPositions s) \<subseteq> e_id ` set (enemies s)"
    "\<forall>e \<in> set (enemies s). onPath e"
    by (simp_all add: cacheInv_def)
  show ?thesis
    unfolding cacheInv_def
    using handleProjectileHit_distinct [OF a(1)] handleProjectileHit_keys [OF a(2)]
      handleProjectileHit_onPath [OF a(3)]
    by (intro conjI)
qed

lemma setPosition_same [simp]:
  "enemies (setPosition ident v s) = enemies s"
  "enemyPositions (setPosition ident v s) = enemyPositions s"
  by (simp_all add: setPosition_def)

lemma projectileFrame_rule:
  assumes hit: "\<And>projId hi (s1::game). enemies s1 = enemies s \<Longrightarrow>
      enemyPositions s1 = enemyPositions s \<Longrightarrow> P (handleProjectileHit projId hi s1)"
    and move: "\<And>s1::game. enemies s1 = enemies s \<Longrightarrow> enemyPositions s1 = enemyPositions s \<Longrightarrow> P s1"
  shows "P (projectileFrame dt p s)"
proof (cases "map_of (enemyPositions s) (p_targetId p)")
  case None
  then have "projectileFrame dt p s = handleProjectileHit (p_id p) None s"
    by (simp add: projectileFrame_def)
  then show ?thesis using hit [of s] by simp
next
  case (Some target)
  define s' where "s' = setPosition (p_id p) (advance dt (p_position p) (i_pos target)) s"
  have same: "enemies s' = enemies s" "enemyPositions s' = enemyPositions s"
    by (simp_all add: s'_def)
  show ?thesis
  proof (cases "planarDist (advance dt (p_position p) (i_pos target)) (i_pos target) < 0.6")
    case True
    with Some have "projectileFrame dt p s = handleProjectileHit (p_id p)
        (Some \<lparr>h_targetId = p_targetId p, h_splash = p_splash p,
               h_hitPos = advance dt (p_position p) (i_pos target)\<rparr>) s'"
      unfolding projectileFrame_def Let_def s'_def by simp
    then show ?thesis using hit [OF same] by simp
  next
    case False
    with Some have "projectileFrame dt p s = s'"
      unfolding projectileFrame_def Let_def s'_def by simp
    then show ?thesis using move [OF same] by simp
  qed
qed

lemma projectileFrame_cacheInv:
  assumes "cacheInv s"
  shows "cacheInv (projectileFrame dt p s)"
proof (rule projectileFrame_rule [where P = cacheInv and s = s])
  fix projId hi and s1 :: game
  assume "enemies s1 = enemies s" "enemyPositions s1 = enemyPositions s"
  with assms have "cacheInv s1" by (simp add: cacheInv_def)
  then show "cacheInv (handleProjectileHit projId hi s1)"
    by (rule handleProjectileHit_cacheInv)
next
  fix s1 :: game
  assume "enemies s1 = enemies s" "enemyPositions s1 = enemyPositions s"
  with assms show "cacheInv s1" by (simp add: cacheInv_def)
qed

lemma setProgress_ids [simp]: "map e_id (setProgress ident p es) = map e_id es"
  by (induction es) (simp_all add: setProgress_def)

lemma setProgress_set:
  "x \<in> set (setProgress ident p es) \<Longrightarrow>
     x \<in> set es \<and> e_id x \<noteq> ident \<or> (e_id x = ident \<and> e_progress x = p)"
  by (auto simp: setProgress_def)

lemma setProgress_other:
  "x \<in> set es \<Longrightarrow> e_id x \<noteq> ident \<Longrightarrow> x \<in> set (setProgress ident p es)"
  by (auto simp: setProgress_def image_iff)

lemma enemyFrame_cacheInv:
  assumes "cacheInv s" and "e \<in> set (enemies s)" and "0 \<le> dt"
  shows "\<exists>s'. enemyFrame dt e s = Inr s' \<and> cacheInv s'"
proof -
  from assms(1) have inv: "distinct (map e_id (enemies s))"
    "fst ` set (enemyPositions s) \<subseteq> e_id ` set (enemies s)"
    "\<forall>e \<in> set (enemies s). onPath e"
    by (simp_all add: cacheInv_def)
  from inv(3) assms(2) have p0: "0 \<le> e_progress e" by (simp add: onPath_def)
  let ?p = "e_progress e + baseSpeed (e_type e) * dt"
  note eq = enemyFrame_eq [OF p0 assms(3), of s, unfolded Let_def]
  have l: "int (length PATH) - 1 = 4" by (simp add: PATH_def)
  show ?thesis
  proof (cases "4 \<le> \<lfloor>?p\<rfloor>")
    case True
    let ?s' = "s\<lparr>enemies := filter (\<lambda>x. e_id x \<noteq> e_id e) (enemies s),
                    enemyPositions := AList.delete (e_id e) (enemyPositions s),
                    lives := lives s - 1\<rparr>"
    from True eq have r: "enemyFrame dt e s = Inr ?s'" by simp
    have k: "fst ` set (AList.delete (e_id e) (enemyPositions s))
        \<subseteq> e_id ` set (filter (\<lambda>x. e_id x \<noteq> e_id e) (enemies s))"
    proof
      fix k assume "k \<in> fst ` set (AList.delete (e_id e) (enemyPositions s))"
      then have "k \<in> fst ` set (enemyPositions s)" "k \<noteq> e_id e"
        by (auto simp: AList.delete_eq)
      with inv(2) show "k \<in> e_id ` set (filter (\<lambda>x. e_id x \<noteq> e_id e) (enemies s))"
        by auto
    qed
    from inv(1) have "distinct (map e_id (filter (\<lambda>x. e_id x \<noteq> e_id e) (enemies s)))"
      by (rule distinct_map_filter)
    with k inv(3) have "cacheInv ?s'" by (simp add: cacheInv_def)
    with r show ?thesis by blast
  next
    case False
    let ?s' = "s\<lparr>enemies := setProgress (e_id e) ?p (enemies s),
                    enemyPositions := AList.update (e_id e)
                      \<lparr>i_pos = lerpVec (PATH ! nat \<lfloor>?p\<rfloor>) (PATH ! (nat \<lfloor>?p\<rfloor> + 1))
                                (?p - of_int \<lfloor>?p\<rfloor>),
                        i_hp = e_hp e\<rparr> (enemyPositions s)\<rparr>"
    from False eq have r: "enemyFrame dt e s = Inr ?s'" by simp
    have ids: "e_id ` set (setProgress (e_id e) ?p (enemies s)) = e_id ` set (enemies s)"
      using setProgress_ids [of "e_id e" ?p "enemies s"] by (metis set_map)
    from assms(2) inv(2) have k: "fst ` set (enemyPositions ?s') \<subseteq> e_id ` set (enemies ?s')"
      by (auto simp: AList.dom_update ids)
    from progress_nonneg [OF p0 assms(3)] False l have "onPath (e\<lparr>e_progress := ?p\<rparr>)"
      by (simp add: onPath_def)
    have op: "\<forall>x \<in> set (enemies ?s'). onPath x"
    proof
      fix x assume "x \<in> set (enemies ?s')"
      then have "x \<in> set (setProgress (e_id e) ?p (enemies s))" by simp
      from setProgress_set [OF this] inv(3) progress_nonneg [OF p0 assms(3)] False l
      show "onPath x" by (auto simp: onPath_def)
    qed
    from inv(1) k op have "cacheInv ?s'" by (simp add: cacheInv_def)
    with r show ?thesis by blast
  qed
qed

lemma cacheInv_initGame: "cacheInv initGame"
  by (simp add: cacheInv_def initGame_def)

lemma cacheInv_spawnEnemy:
  assumes "cacheInv s" and "newId \<notin> e_id ` set (enemies s)"
  shows "cacheInv (spawnEnemy newId ty hp s)"
  using assms by (auto simp: cacheInv_def spawnEnemy_def onPath_def PATH_def)

lemma upgradeTower_same:
  "upgradeTower towerId s = Inr (al, s') \<Longrightarrow>
     enemies s' = enemies s \<and> enemyPositions s' = enemyPositions s"
  by (auto simp: upgradeTower_def split: sum.splits prod.splits)

lemma sellTower_same:
  "sellTower towerId s = Inr s' \<Longrightarrow>
     enemies s' = enemies s \<and> enemyPositions s' = enemyPositions s"
  by (auto simp: sellTower_def Let_def split: option.splits)

lemma onPlaceTower_same:
  "onPlaceTower x z newId s = Inr s' \<Longrightarrow>
     enemies s' = enemies s \<and> enemyPositions s' = enemyPositions s"
  by (auto simp: onPlaceTower_def split: option.splits if_splits)

lemma loadGame_same:
  "loadGame stored s = Inr s' \<Longrightarrow>
     enemies s' = enemies s \<and> enemyPositions s' = enemyPositions s"
  by (auto simp: loadGame_def split: option.splits)

lemma reachable_cacheInv: "reachable s \<Longrightarrow> cacheInv s"
proof (induction rule: reachable.induct)
  case init
  show ?case by (rule cacheInv_initGame)
next
  case (spawn s newId ty hp)
  then show ?case by (simp add: cacheInv_spawnEnemy)
next
  case (wave s)
  then show ?case by (simp add: cacheInv_def nextWave_def Let_def)
next
  case (enemy s e dt s')
  from enemyFrame_cacheInv [OF enemy.IH enemy.hyps(2,3)] enemy.hyps(4)
  show ?case by simp
next
  case (tower s tw dt newId)
  then show ?case by (simp add: cacheInv_def towerFrame_same)
next
  case (projectile s p dt)
  then show ?case by (simp add: projectileFrame_cacheInv)
next
  case (clean s)
  then show ?case by (simp add: cacheInv_def cleanProjectiles_def)
next
  case (place s x z newId s')
  from onPlaceTower_same [OF place.hyps(2)] place.IH show ?case by (simp add: cacheInv_def)
next
  case (upgrade s towerId al s')
  from upgradeTower_same [OF upgrade.hyps(2)] upgrade.IH show ?case by (simp add: cacheInv_def)
next
  case (sell s towerId s')
  from sellTower_same [OF sell.hyps(2)] sell.IH show ?case by (simp add: cacheInv_def)
next
  case (reset s)
  show ?case by (simp add: cacheInv_def resetGame_def)
next
  case (load s stored s')
  from loadGame_same [OF load.hyps(2)] load.IH show ?case by (simp add: cacheInv_def)
qed

lemma enemyFrame_effect:
  assumes "cacheInv s" and "e \<in> set (enemies s)" and "0 \<le> dt"
    and "enemyFrame dt e s = Inr s1"
  shows "\<forall>x \<in> set (enemies s). e_id x \<noteq> e_id e \<longrightarrow> x \<in> set (enemies s1)"
    and "\<forall>x \<in> set (enemies s1). e_id x = e_id e \<and> e_id x \<in> fst ` set (enemyPositions s1)
            \<or> x \<in> set (enemies s) \<and> e_id x \<noteq> e_id e"
    and "\<forall>k. k \<noteq> e_id e \<longrightarrow>
            (k \<in> fst ` set (enemyPositions s1) \<longleftrightarrow> k \<in> fst ` set (enemyPositions s))"
proof -
  from assms(1,2) have p0: "0 \<le> e_progress e" by (simp add: cacheInv_def onPath_def)
  let ?p = "e_progress e + baseSpeed (e_type e) * dt"
  note eq = enemyFrame_eq [OF p0 assms(3), of s, unfolded Let_def]
  have "(\<forall>x \<in> set (enemies s). e_id x \<noteq> e_id e \<longrightarrow> x \<in> set (enemies s1))
    \<and> (\<forall>x \<in> set (enemies s1). e_id x = e_id e \<and> e_id x \<in> fst ` set (enemyPositions s1)
            \<or> x \<in> set (enemies s) \<and> e_id x \<noteq> e_id e)
    \<and> (\<forall>k. k \<noteq> e_id e \<longrightarrow>
            (k \<in> fst ` set (enemyPositions s1) \<longleftrightarrow> k \<in> fst ` set (enemyPositions s)))"
  proof (cases "4 \<le> \<lfloor>?p\<rfloor>")
    case True
    with eq assms(4) have s1: "s1 = s\<lparr>enemies := filter (\<lambda>x. e_id x \<noteq> e_id e) (enemies s),
                    enemyPositions := AList.delete (e_id e) (enemyPositions s),
                    lives := lives s - 1\<rparr>" by simp
    show ?thesis unfolding s1 by (auto simp: AList.delete_eq)
  next
    case False
    with eq assms(4) have s1: "s1 = s\<lparr>enemies := setProgress (e_id e) ?p (enemies s),
                    enemyPositions := AList.update (e_id e)
                      \<lparr>i_pos = lerpVec (PATH ! nat \<lfloor>?p\<rfloor>) (PATH ! (nat \<lfloor>?p\<rfloor> + 1))
                                (?p - of_int \<lfloor>?p\<rfloor>),
                        i_hp = e_hp e\<rparr> (enemyPositions s)\<rparr>" by simp
    have a: "\<forall>x \<in> set (enemies s). e_id x \<noteq> e_id e \<longrightarrow> x \<in> set (enemies s1)"
      unfolding s1 by (simp add: setProgress_other)
    have b: "\<forall>x \<in> set (enemies s1). e_id x = e_id e \<and> e_id x \<in> fst ` set (enemyPositions s1)
            \<or> x \<in> set (enemies s) \<and> e_id x \<noteq> e_id e"
    proof
      fix x assume "x \<in> set (enemies s1)"
      then have "x \<in> set (setProgress (e_id e) ?p (enemies s))" by (simp add: s1)
      from setProgress_set [OF this]
      show "e_id x = e_id e \<and> e_id x \<in> fst ` set (enemyPositions s1)
            \<or> x \<in> set (enemies s) \<and> e_id x \<noteq> e_id e"
        by (auto simp: s1 AList.dom_update)
    qed
    have c: "\<forall>k. k \<noteq> e_id e \<longrightarrow>
            (k \<in> fst ` set (enemyPositions s1) \<longleftrightarrow> k \<in> fst ` set (enemyPositions s))"
      unfolding s1 by (simp add: AList.dom_update)
    from a b c show ?thesis by blast
  qed
  then show "\<forall>x \<in> set (enemies s). e_id x \<noteq> e_id e \<longrightarrow> x \<in> set (enemies s1)"
    and "\<forall>x \<in> set (enemies s1). e_id x = e_id e \<and> e_id x \<in> fst ` set (enemyPositions s1)
            \<or> x \<in> set (enemies s) \<and> e_id x \<noteq> e_id e"
    and "\<forall>k. k \<noteq> e_id e \<longrightarrow>
            (k \<in> fst ` set (enemyPositions s1) \<longleftrightarrow> k \<in> fst ` set (enemyPositions s))"
    by blast+
qed

lemma enemyFrames_full:
  assumes "cacheInv s" and "0 \<le> dt" and "distinct (map e_id es)"
    and "set es \<subseteq> set (enemies s)"
    and "\<forall>x \<in> set (enemies s). e_id x \<notin> e_id ` set es \<longrightarrow>
           e_id x \<in> fst ` set (enemyPositions s)"
  shows "\<exists>s'. enemyFrames dt es s = Inr s' \<and> cacheInv s'
    \<and> e_id ` set (enemies s') \<subseteq> fst ` set (enemyPositions s')"
  using assms
proof (induction es arbitrary: s)
  case Nil
  then show ?case by auto
next
  case (Cons e es)
  from Cons.prems(4) have mem: "e \<in> set (enemies s)" by simp
  from enemyFrame_cacheInv [OF Cons.prems(1) mem Cons.prems(2)] obtain s1 where
    s1: "enemyFrame dt e s = Inr s1" "cacheInv s1" by blast
  note eff = enemyFrame_effect [OF Cons.prems(1) mem Cons.prems(2) s1(1)]
  from Cons.prems(3) have d: "distinct (map e_id es)" and ne: "e_id e \<notin> e_id ` set es"
    by simp_all
  have sub: "set es \<subseteq> set (enemies s1)"
  proof
    fix x assume x: "x \<in> set es"
    with ne have "e_id x \<noteq> e_id e" by (metis imageI)
    moreover from x Cons.prems(4) have "x \<in> set (enemies s)" by auto
    ultimately show "x \<in> set (enemies s1)" using eff(1) by blast
  qed
  have rest: "\<forall>x \<in> set (enemies s1). e_id x \<notin> e_id ` set es \<longrightarrow>
           e_id x \<in> fst ` set (enemyPositions s1)"
  proof (intro ballI impI)
    fix x assume x: "x \<in> set (enemies s1)" "e_id x \<notin> e_id ` set es"
    from eff(2) x(1) consider "e_id x = e_id e" "e_id x \<in> fst ` set (enemyPositions s1)"
      | "x \<in> set (enemies s)" "e_id x \<noteq> e_id e" by blast
    then show "e_id x \<in> fst ` set (enemyPositions s1)"
    proof cases
      case 1
      then show ?thesis by simp
    next
      case 2
      with x(2) have "e_id x \<notin> e_id ` set (e # es)" by simp
      with Cons.prems(5) 2(1) have "e_id x \<in> fst ` set (enemyPositions s)" by blast
      with eff(3) 2(2) show ?thesis by blast
    qed
  qed
  from Cons.IH [OF s1(2) Cons.prems(2) d sub rest] s1(1) show ?case by simp
qed

lemma enemyPass_full:
  assumes "cacheInv s" and "0 \<le> dt"
  shows "\<exists>s'. enemyPass dt s = Inr s' \<and> cacheInv s'
    \<and> e_id ` set (enemies s') \<subseteq> fst ` set (enemyPositions s')"
proof -
  from assms(1) have "distinct (map e_id (enemies s))" by (simp add: cacheInv_def)
  from enemyFrames_full [OF assms this] show ?thesis
    unfolding enemyPass_def by (auto simp: image_iff)
qed

lemma evictDead_keys_full:
  assumes "distinct (map e_id u)" and "e_id ` set u \<subseteq> fst ` set c"
  shows "e_id ` set (filter (\<lambda>e. \<not> e_hp e \<le> 0) u) \<subseteq> fst ` set (evictDead u c)"
proof
  fix k assume "k \<in> e_id ` set (filter (\<lambda>e. \<not> e_hp e \<le> 0) u)"
  then obtain x where x: "x \<in> set u" "\<not> e_hp x \<le> 0" "e_id x = k" by auto
  with assms(2) have k: "k \<in> fst ` set c" by auto
  have "k \<notin> e_id ` {e \<in> set u. e_hp e \<le> 0}"
  proof
    assume "k \<in> e_id ` {e \<in> set u. e_hp e \<le> 0}"
    then obtain y where y: "y \<in> set u" "e_hp y \<le> 0" "e_id y = k" by auto
    from assms(1) have "inj_on e_id (set u)" by (simp add: distinct_map)
    with x(1,3) y(1,3) have "x = y" by (simp add: inj_on_def)
    with x(2) y(2) show False by simp
  qed
  with k show "k \<in> fst ` set (evictDead u c)" by (simp add: evictDead_keys)
qed

lemma handleProjectileHit_full:
  assumes "distinct (map e_id (enemies s))"
    and "e_id ` set (enemies s) \<subseteq> fst ` set (enemyPositions s)"
  shows "e_id ` set (enemies (handleProjectileHit projId hi s))
     \<subseteq> fst ` set (enemyPositions (handleProjectileHit projId hi s))"
proof (cases hi)
  case None
  with assms show ?thesis by (simp add: handleProjectileHit_def)
next
  case (Some h)
  show ?thesis
  proof (cases "byId (enemies s) (h_targetId h)")
    case None
    with Some assms show ?thesis by (simp add: handleProjectileHit_def)
  next
    case (Some ti)
    define u where "u = damaged (projectiles s) (enemyPositions s) projId h ti (enemies s)"
    from byId_Some [OF Some] have m: "map e_id u = map e_id (enemies s)" by (simp add: u_def)
    then have "set (map e_id u) = set (map e_id (enemies s))" by simp
    then have ids: "e_id ` set u = e_id ` set (enemies s)" by simp
    from m assms(1) have d: "distinct (map e_id u)" by simp
    from ids assms(2) have "e_id ` set u \<subseteq> fst ` set (enemyPositions s)" by simp
    from evictDead_keys_full [OF d this] show ?thesis
      unfolding \<open>hi = Some h\<close> handleProjectileHit_target [OF Some] u_def by simp
  qed
qed

lemma handleProjectileHit_cacheFull:
  "cacheFull s \<Longrightarrow> cacheFull (handleProjectileHit projId hi s)"
  unfolding cacheFull_def
  using handleProjectileHit_cacheInv [of s projId hi] handleProjectileHit_full [of s projId hi]
  by (simp add: cacheInv_def)

lemma readPoint_cacheFull: "readPoint s \<Longrightarrow> cacheFull s"
proof (induction rule: readPoint.induct)
  case (pass s dt s')
  from enemyPass_full [OF reachable_cacheInv [OF pass.hyps(1)] pass.hyps(2)] pass.hyps(3)
  show ?case by (simp add: cacheFull_def)
next
  case (tower s tw dt newId)
  then show ?case by (simp add: cacheFull_def cacheInv_def towerFrame_same)
next
  case (projectile s p dt)
  show ?case
  proof (rule projectileFrame_rule [where P = cacheFull and s = s])
    fix projId hi and s1 :: game
    assume "enemies s1 = enemies s" "enemyPositions s1 = enemyPositions s"
    with projectile.IH have "cacheFull s1" by (simp add: cacheFull_def cacheInv_def)
    then show "cacheFull (handleProjectileHit projId hi s1)"
      by (rule handleProjectileHit_cacheFull)
  next
    fix s1 :: game
    assume "enemies s1 = enemies s" "enemyPositions s1 = enemyPositions s"
    with projectile.IH show "cacheFull s1" by (simp add: cacheFull_def cacheInv_def)
  qed
qed

text \<open>
  C3. At every read point of a tick the ids that have an entry in the position cache are
  exactly the ids of the live enemies, and every live enemy is on the path (it has not
  reached the end). So an enemy that a timer has spawned since the last tick has its
  entry by then, and no dead or finished enemy has one. In every reachable state, read
  point or not, every entry belongs to a live enemy, and the enemy pass of the next
  tick (any \<open>dt \<ge> 0\<close>) runs without error and gives a read point.
\<close>

theorem cache_entry_iff_alive:
  "(readPoint s \<longrightarrow>
      (\<forall>ident. ident \<in> fst ` set (enemyPositions s) \<longleftrightarrow> ident \<in> e_id ` set (enemies s))
      \<and> (\<forall>e \<in> set (enemies s). onPath e))
   \<and> (reachable s \<longrightarrow>
        fst ` set (enemyPositions s) \<subseteq> e_id ` set (enemies s)
      \<and> (\<forall>dt. 0 \<le> dt \<longrightarrow> (\<exists>s'. enemyPass dt s = Inr s' \<and> readPoint s')))"
proof (intro conjI impI)
  assume "readPoint s"
  then have "cacheFull s" by (rule readPoint_cacheFull)
  then show "\<forall>ident. ident \<in> fst ` set (enemyPositions s) \<longleftrightarrow> ident \<in> e_id ` set (enemies s)"
    and "\<forall>e \<in> set (enemies s). onPath e"
    by (auto simp: cacheFull_def cacheInv_def)
next
  assume r: "reachable s"
  then have inv: "cacheInv s" by (rule reachable_cacheInv)
  then show "fst ` set (enemyPositions s) \<subseteq> e_id ` set (enemies s)"
    by (simp add: cacheInv_def)
  show "\<forall>dt. 0 \<le> dt \<longrightarrow> (\<exists>s'. enemyPass dt s = Inr s' \<and> readPoint s')"
  proof (intro allI impI)
    fix dt :: real assume dt: "0 \<le> dt"
    from enemyPass_full [OF inv dt] obtain s' where "enemyPass dt s = Inr s'" by blast
    with r dt show "\<exists>s'. enemyPass dt s = Inr s' \<and> readPoint s'"
      by (blast intro: readPoint.pass)
  qed
qed

theorem cache_entry_iff_alive_witness:
  "reachable game7
   \<and> ''e1'' \<in> e_id ` set (enemies game7)
   \<and> ''e1'' \<notin> fst ` set (enemyPositions game7)
   \<and> (\<exists>s'. enemyPass 0.5 game7 = Inr s' \<and> readPoint s'
         \<and> ''e1'' \<in> e_id ` set (enemies s')
         \<and> ''e1'' \<in> fst ` set (enemyPositions s'))"
proof -
  have r: "reachable game7"
    unfolding game7_def
    by (rule reachable.spawn [OF reachable.init]) (simp add: initGame_def)
  have a: "''e1'' \<in> e_id ` set (enemies game7)" "''e1'' \<notin> fst ` set (enemyPositions game7)"
    by (simp_all add: game7_def spawnEnemy_def initGame_def)
  from cache_entry_iff_alive [of game7] r obtain s' where
    s': "enemyPass 0.5 game7 = Inr s'" "readPoint s'"
    by (metis (no_types) zero_le_numeral divide_nonneg_nonneg zero_le_one less_eq_real_def)
  have "enemyPass 0.5 game7 = Inr (game7\<lparr>
      enemies := [\<lparr>e_id = ''e1'', e_type = ''basic'', e_hp = 3, e_progress = 0.35\<rparr>],
      enemyPositions := [(''e1'', \<lparr>i_pos = (-6.6, 0, 6.6), i_hp = 3\<rparr>)]\<rparr>)"
    by (simp add: enemyPass_def enemyFrame_def game7_def spawnEnemy_def initGame_def
        baseSpeed_def PATH_def Let_def setProgress_def lerp_def)
  with s'(1) have e: "''e1'' \<in> e_id ` set (enemies s')" by auto
  with cache_entry_iff_alive [of s'] s'(2) have "''e1'' \<in> fst ` set (enemyPositions s')"
    by blast
  with r a s' e show ?thesis by blast
qed

text \<open>
  A projectile frame reports a hit only for a target that has a cache entry, and in a
  reachable state of this model, where every state setter takes effect at once, such a
  target is in the live set.
\<close>

lemma hit_report_target_live:
  assumes "reachable s" and "map_of (enemyPositions s) ident = Some target"
  shows "ident \<in> e_id ` set (enemies s)"
proof -
  from assms(2) have "ident \<in> fst ` set (enemyPositions s)"
    by (metis domI dom_map_of_conv_image_fst)
  with reachable_cacheInv [OF assms(1)] show ?thesis
    by (auto simp: cacheInv_def)
qed

end
